theory Spec2Isabelle
  imports Main "HOL-Library.Sublist" "HOL-Library.Char_ord" "HOL-Library.List_Lexorder"
begin

section \<open>JavaScript strings, arrays and Maps\<close>

text \<open>
  A JavaScript string is modelled as a \<^typ>\<open>string\<close>: the bytes of its UTF-8 encoding
  (a character of HOL is one byte). For the characters of ASCII a byte is a code unit.
  Where JavaScript looks at the 16-bit code units of other characters (the order of
  \<open>sort()\<close>, the line terminators at which the dot of a regular expression stops) the
  definitions below decode the bytes: \<open>codeUnits\<close>, \<open>hasLineTerminator\<close>.
  \<open>startsWith\<close>, \<open>endsWith\<close>, \<open>includes\<close> (here \<open>str_includes\<close>), \<open>split\<close> and \<open>join\<close> are the
  methods of \<open>String.prototype\<close> and \<open>Array.prototype\<close> the plugin calls.
\<close>

definition startsWith :: "string \<Rightarrow> string \<Rightarrow> bool" where
  "startsWith s p = prefix p s"

definition endsWith :: "string \<Rightarrow> string \<Rightarrow> bool" where
  "endsWith s p = prefix (rev p) (rev s)"

fun str_includes :: "string \<Rightarrow> string \<Rightarrow> bool" where
  "str_includes [] p = (p = [])"
| "str_includes (c # s) p = (prefix p (c # s) \<or> str_includes s p)"

text \<open>\<open>s.split(c)\<close>: empty pieces are kept, and the empty string gives one empty piece.\<close>

fun split :: "char \<Rightarrow> string \<Rightarrow> string list" where
  "split c [] = [[]]"
| "split c (x # xs) =
     (if x = c then [] # split c xs
      else (case split c xs of [] \<Rightarrow> [[x]] | y # ys \<Rightarrow> (x # y) # ys))"

fun join :: "string \<Rightarrow> string list \<Rightarrow> string" where
  "join sep [] = []"
| "join sep [x] = x"
| "join sep (x # y # ys) = x @ sep @ join sep (y # ys)"

text \<open>
  The code units of a string in UTF-16, from its bytes. A lead byte announces one, two
  or three continuation bytes, each with six bits of the code point; a code point from
  \<open>0x10000\<close> on is a pair of surrogates. A byte below \<open>0xC0\<close> stands for itself.
\<close>

definition continuationBytes :: "nat \<Rightarrow> nat" where
  "continuationBytes b = (if b < 0xC0 then 0 else if b < 0xE0 then 1 else if b < 0xF0 then 2 else 3)"

definition leadBits :: "nat \<Rightarrow> nat" where
  "leadBits b = (if b < 0xC0 then b else if b < 0xE0 then b mod 32 else if b < 0xF0 then b mod 16 else b mod 8)"

definition codePoint :: "nat \<Rightarrow> string \<Rightarrow> nat" where
  "codePoint lead rest = foldl (\<lambda>a c. a * 64 + of_char c mod 64) lead rest"

definition surrogates :: "nat \<Rightarrow> nat list" where
  "surrogates cp =
     (if cp < 0x10000 then [cp]
      else [0xD800 + (cp - 0x10000) div 0x400, 0xDC00 + (cp - 0x10000) mod 0x400])"

fun codeUnits :: "string \<Rightarrow> nat list" where
  "codeUnits [] = []"
| "codeUnits (c # s) =
     surrogates (codePoint (leadBits (of_char c)) (take (continuationBytes (of_char c)) s))
     @ codeUnits (drop (continuationBytes (of_char c)) s)"

text \<open>
  \<open>array.sort()\<close> without a comparator, on strings: ascending by code units, equal
  elements in the order they had.
\<close>

definition js_sort :: "string list \<Rightarrow> string list" where
  "js_sort xs = sort_key codeUnits xs"

text \<open>
  The line terminators of ECMAScript: line feed, carriage return, and the line and
  paragraph separators \<open>U+2028\<close> and \<open>U+2029\<close>, three bytes each.
\<close>

definition lineSeparator :: string where
  "lineSeparator = [CHR 0xE2, CHR 0x80, CHR 0xA8]"

definition paragraphSeparator :: string where
  "paragraphSeparator = [CHR 0xE2, CHR 0x80, CHR 0xA9]"

definition hasLineTerminator :: "string \<Rightarrow> bool" where
  "hasLineTerminator s =
     (CHR 0x0A \<in> set s \<or> CHR 0x0D \<in> set s
      \<or> str_includes s lineSeparator \<or> str_includes s paragraphSeparator)"

text \<open>
  The double quote, and the dash of one warning (one code unit in JavaScript, here its
  three bytes in UTF-8).
\<close>

definition dq :: string where
  "dq = [CHR 0x22]"

definition emDash :: string where
  "emDash = [CHR 0xE2, CHR 0x80, CHR 0x94]"

text \<open>A number inside a template literal: its decimal digits.\<close>

function show_nat :: "nat \<Rightarrow> string" where
  "show_nat n =
     (if n < 10 then [char_of (48 + n)]
      else show_nat (n div 10) @ [char_of (48 + n mod 10)])"
  by pat_completeness auto
termination
  by (relation "measure id") auto

declare show_nat.simps [simp del]

text \<open>
  A JavaScript \<open>Map\<close> keeps its keys in insertion order, and \<open>set\<close> on a key that is
  present replaces the value where the key stands: an association list without
  duplicate keys.
\<close>

type_synonym ('k, 'v) jsmap = "('k \<times> 'v) list"

fun map_set :: "('k, 'v) jsmap \<Rightarrow> 'k \<Rightarrow> 'v \<Rightarrow> ('k, 'v) jsmap" where
  "map_set [] k v = [(k, v)]"
| "map_set ((k', v') # m) k v =
     (if k' = k then (k, v) # m else (k', v') # map_set m k v)"

definition map_get :: "('k, 'v) jsmap \<Rightarrow> 'k \<Rightarrow> 'v option" where
  "map_get m k = map_of m k"

definition map_has :: "('k, 'v) jsmap \<Rightarrow> 'k \<Rightarrow> bool" where
  "map_has m k = (map_of m k \<noteq> None)"

definition map_keys :: "('k, 'v) jsmap \<Rightarrow> 'k list" where
  "map_keys m = map fst m"

section \<open>constants.ts\<close>

definition DEFAULT_EXTENSIONS :: "string list" where
  "DEFAULT_EXTENSIONS = [''.tsx'', ''.ts'', ''.jsx'', ''.js'', ''.vue'', ''.svelte'', ''.mts'', ''.mjs'']"

definition DEFAULT_OVERRIDE_DIR :: string where
  "DEFAULT_OVERRIDE_DIR = ''./src/overrides''"

definition DEFAULT_SRC_DIR :: string where
  "DEFAULT_SRC_DIR = ''src''"

definition MAX_SCAN_DEPTH :: nat where
  "MAX_SCAN_DEPTH = 20"

definition PLUGIN_NAME :: string where
  "PLUGIN_NAME = ''vite-plugin-unlock''"

section \<open>utils.ts\<close>

definition PREFIX :: string where
  "PREFIX = ''['' @ PLUGIN_NAME @ '']''"

text \<open>
  \<open>createLogger(debug)\<close>: what each call prints, as the list of console lines.
  \<open>info\<close> prints only when \<open>debug\<close> is set.
\<close>

datatype console = ConsoleLog string | ConsoleWarn string | ConsoleError string

definition logger_info :: "bool \<Rightarrow> string \<Rightarrow> console list" where
  "logger_info dbg msg = (if dbg then [ConsoleLog (PREFIX @ '' '' @ msg)] else [])"

definition logger_warn :: "string \<Rightarrow> console list" where
  "logger_warn msg = [ConsoleWarn (PREFIX @ '' '' @ msg)]"

definition logger_error :: "string \<Rightarrow> console list" where
  "logger_error msg = [ConsoleError (PREFIX @ '' '' @ msg)]"

definition isWarn :: "console \<Rightarrow> bool" where
  "isWarn c = (case c of ConsoleWarn _ \<Rightarrow> True | _ \<Rightarrow> False)"

text \<open>\<open>p.replace(/\\/g, "/")\<close>: every backslash becomes a forward slash.\<close>

definition normalizePath :: "string \<Rightarrow> string" where
  "normalizePath p = map (\<lambda>c. if c = CHR 0x5C then CHR ''/'' else c) p"

text \<open>
  \<open>filename.replace(/\.(tsx?|jsx?|mts|mjs|vue|svelte)$/, "")\<close>: one of eight fixed
  extensions is removed from the end, whatever extensions are configured.
\<close>

definition STRIPPED_EXTENSIONS :: "string list" where
  "STRIPPED_EXTENSIONS =
     [''.tsx'', ''.ts'', ''.jsx'', ''.js'', ''.mts'', ''.mjs'', ''.vue'', ''.svelte'']"

definition stripExtension :: "string \<Rightarrow> string" where
  "stripExtension filename =
     (case find (\<lambda>e. endsWith filename e) STRIPPED_EXTENSIONS of
        None \<Rightarrow> filename
      | Some e \<Rightarrow> take (length filename - length e) filename)"

text \<open>\<open>generateAlias\<close>: the last piece of the package name behind a tilde.\<close>

definition generateAlias :: "string \<Rightarrow> string" where
  "generateAlias packageName = ''~'' @ last (split CHR ''/'' packageName)"

section \<open>Node's \<open>path\<close> module (POSIX)\<close>

definition segments :: "string \<Rightarrow> string list" where
  "segments p = filter (\<lambda>s. s \<noteq> []) (split CHR ''/'' p)"

text \<open>\<open>path.basename(p)\<close>: the last non-empty piece, trailing slashes ignored.\<close>

definition path_basename :: "string \<Rightarrow> string" where
  "path_basename p = (case segments p of [] \<Rightarrow> [] | s # ss \<Rightarrow> last (s # ss))"

text \<open>
  \<open>path.extname(p)\<close>: from the last dot of the basename to its end; empty when there
  is no dot, when the only dot leads the basename, and for \<open>..\<close>.
\<close>

definition path_extname :: "string \<Rightarrow> string" where
  "path_extname p =
     (let b = path_basename p;
          afterDot = takeWhile (\<lambda>c. c \<noteq> CHR ''.'') (rev b)
      in if CHR ''.'' \<notin> set b then []
         else if length afterDot + 1 = length b then []
         else if b = ''..'' then []
         else drop (length b - length afterDot - 1) b)"

text \<open>
  \<open>normalizeString\<close> of Node: \<open>.\<close> and empty pieces go, \<open>..\<close> pops the last piece
  (and is kept in front of a relative path). The accumulator is the stack, reversed.
\<close>

fun normalizeSegs :: "bool \<Rightarrow> string list \<Rightarrow> string list \<Rightarrow> string list" where
  "normalizeSegs allowAbove acc [] = rev acc"
| "normalizeSegs allowAbove acc (s # ss) =
     (if s = [] \<or> s = ''.'' then normalizeSegs allowAbove acc ss
      else if s = ''..'' then
        (case acc of
           [] \<Rightarrow> normalizeSegs allowAbove (if allowAbove then [''..''] else []) ss
         | a # as \<Rightarrow>
             if a = ''..'' then normalizeSegs allowAbove (if allowAbove then ''..'' # acc else acc) ss
             else normalizeSegs allowAbove as ss)
      else normalizeSegs allowAbove (s # acc) ss)"

definition path_normalize :: "string \<Rightarrow> string" where
  "path_normalize p =
     (if p = [] then ''.''
      else
        let isAbsolute = startsWith p ''/'';
            trailingSeparator = endsWith p ''/'';
            body = join ''/'' (normalizeSegs (\<not> isAbsolute) [] (split CHR ''/'' p))
        in if body = [] then (if isAbsolute then ''/'' else if trailingSeparator then ''./'' else ''.'')
           else (if isAbsolute then ''/'' else []) @ body @ (if trailingSeparator then ''/'' else []))"

definition path_join :: "string list \<Rightarrow> string" where
  "path_join ps =
     (let qs = filter (\<lambda>s. s \<noteq> []) ps
      in if qs = [] then ''.'' else path_normalize (join ''/'' qs))"

text \<open>
  \<open>path.resolve(...args)\<close>: the arguments are taken from the right until one is
  absolute, the working directory last. \<open>resolveAcc\<close> walks them right to left.
\<close>

fun resolveAcc :: "string list \<Rightarrow> string \<Rightarrow> string" where
  "resolveAcc [] acc = acc"
| "resolveAcc (p # ps) acc =
     (if p = [] then resolveAcc ps acc
      else if startsWith p ''/'' then p @ ''/'' @ acc
      else resolveAcc ps (p @ ''/'' @ acc))"

definition path_resolve :: "string \<Rightarrow> string list \<Rightarrow> string" where
  "path_resolve cwd args =
     (let r = resolveAcc (rev (cwd # args)) [];
          resolvedAbsolute = startsWith r ''/'';
          body = join ''/'' (normalizeSegs (\<not> resolvedAbsolute) [] (split CHR ''/'' r))
      in if resolvedAbsolute then ''/'' @ body
         else if body = [] then ''.'' else body)"

fun dropCommon :: "string list \<Rightarrow> string list \<Rightarrow> string list \<times> string list" where
  "dropCommon (x # xs) (y # ys) = (if x = y then dropCommon xs ys else (x # xs, y # ys))"
| "dropCommon xs ys = (xs, ys)"

text \<open>
  \<open>path.relative(from, to)\<close>: both are resolved, the common leading pieces go, and
  each piece left of \<open>from\<close> is one \<open>..\<close>.
\<close>

definition path_relative :: "string \<Rightarrow> string \<Rightarrow> string \<Rightarrow> string" where
  "path_relative cwd from_p to_p =
     (if from_p = to_p then []
      else
        let (f, t) = dropCommon (segments (path_resolve cwd [from_p]))
                                (segments (path_resolve cwd [to_p]))
        in join ''/'' (replicate (length f) ''..'' @ t))"

text \<open>
  \<open>path.dirname(p)\<close>: the scan runs from the end down to index 1, over the trailing
  slashes and then over the last piece, and cuts at the slash before it.
\<close>

definition path_dirname :: "string \<Rightarrow> string" where
  "path_dirname p =
     (case p of
        [] \<Rightarrow> ''.''
      | c # s \<Rightarrow>
          let hasRoot = (c = CHR ''/'');
              r1 = dropWhile (\<lambda>x. x = CHR ''/'') (rev s);
              r2 = dropWhile (\<lambda>x. x \<noteq> CHR ''/'') r1
          in (case r2 of
                [] \<Rightarrow> (if hasRoot then ''/'' else ''.'')
              | _ # r3 \<Rightarrow>
                  if hasRoot \<and> r3 = [] then ''//'' else c # rev r3))"

section \<open>The file system\<close>

text \<open>
  What the plugin reads of the disk: \<open>fs.readdirSync(dir, {withFileTypes: true})\<close>
  (\<open>None\<close> when it throws), \<open>fs.existsSync\<close> and \<open>process.cwd()\<close>.
\<close>

datatype kind = KFile | KDirectory | KOther

record dirent =
  name :: string
  kind :: kind

record filesystem =
  readdirSync :: "string \<Rightarrow> dirent list option"
  existsSync :: "string \<Rightarrow> bool"
  cwd :: string

section \<open>types.ts\<close>

datatype MatchStrategy = Basename | Path

datatype ConflictStrategy = OnError | OnWarn | OnFirst

record Redirect =
  rfrom :: string
  rto :: string

record TargetHmrConfig =
  cssRedirect :: "Redirect option"
  entryBoundary :: "bool option"

record ResolvedTarget =
  package :: string
  target_alias :: string
  srcDir :: string
  srcPath :: string
  entryRedirect :: "Redirect option"
  hmr :: "TargetHmrConfig option"
  entryFilePath :: "string option"

text \<open>
  \<open>ResolvedOptions\<close>, without the boundary markers, which no function below reads,
  and without the patches, which the watcher holds. \<open>extensionSet\<close> is the set of
  \<open>extensions\<close>.
\<close>

record ResolvedOptions =
  targets :: "ResolvedTarget list"
  overrideDirs :: "string list"
  matchStrategy :: MatchStrategy
  onConflict :: ConflictStrategy
  debug :: bool
  extensions :: "string list"

definition extensionSet :: "ResolvedOptions \<Rightarrow> string set" where
  "extensionSet opts = set (extensions opts)"

text \<open>
  \<open>ResolvedPatch\<close>: \<open>patchTarget\<close> is \<open>target.test\<close>, the test of the regular
  expression. The watcher assigns \<open>configPath\<close>, so the patches live in its state.
\<close>

record ResolvedPatch =
  patchTarget :: "string \<Rightarrow> bool"
  configFile :: string
  patchApply :: "string \<Rightarrow> string \<Rightarrow> string"
  configPath :: "string option"

type_synonym OverrideMap = "(string, string) jsmap"

type_synonym NamespacedOverrideMap = "(string, OverrideMap) jsmap"

section \<open>scanner.ts\<close>

text \<open>
  \<open>collectFiles\<close>: the loop over the entries of one directory is \<open>collectEntries\<close>.
  Beyond \<open>MAX_SCAN_DEPTH\<close> a subtree gives nothing, and a directory that cannot be
  read gives nothing.
\<close>

function collectFiles :: "filesystem \<Rightarrow> string \<Rightarrow> string set \<Rightarrow> nat \<Rightarrow> string list"
  and collectEntries :: "filesystem \<Rightarrow> string \<Rightarrow> string set \<Rightarrow> nat \<Rightarrow> dirent list \<Rightarrow> string list"
where
  "collectFiles fs dir exts depth =
     (if depth > MAX_SCAN_DEPTH then []
      else (case readdirSync fs dir of
              None \<Rightarrow> []
            | Some entries \<Rightarrow> collectEntries fs dir exts depth entries))"
| "collectEntries fs dir exts depth [] = []"
| "collectEntries fs dir exts depth (e # es) =
     (if startsWith (name e) ''.'' \<or> name e = ''node_modules''
      then collectEntries fs dir exts depth es
      else
        (if kind e = KDirectory
         then collectFiles fs (path_resolve (cwd fs) [dir, name e]) exts (depth + 1)
         else if kind e = KFile
         then (if path_extname (name e) \<in> exts
               then [path_resolve (cwd fs) [dir, name e]] else [])
         else [])
        @ collectEntries fs dir exts depth es)"
  by pat_completeness auto
termination
  by (relation "measures [\<lambda>x. case x of
          Inl (fs, dir, exts, depth) \<Rightarrow>
            (if depth > MAX_SCAN_DEPTH then 0 else 2 * (MAX_SCAN_DEPTH + 1 - depth) + 2)
        | Inr (fs, dir, exts, depth, es) \<Rightarrow> 2 * (MAX_SCAN_DEPTH + 1 - depth) + 1,
      \<lambda>x. case x of Inl _ \<Rightarrow> 0 | Inr (fs, dir, exts, depth, es) \<Rightarrow> length es]")
    (auto simp: MAX_SCAN_DEPTH_def)

declare collectFiles.simps [simp del]

text \<open>
  \<open>getOverrideKey\<close>: \<open>None\<close> is \<open>null\<close>. Under the path strategy the result can be the
  empty string, which the callers treat as \<open>null\<close>.
\<close>

definition getOverrideKey :: "string \<Rightarrow> string \<Rightarrow> string \<Rightarrow> MatchStrategy \<Rightarrow> string option" where
  "getOverrideKey wd filePath baseDir m =
     (let normalized = normalizePath filePath;
          parts = segments normalized
      in if length parts = 0 then None
         else
           let fileName = last parts;
               baseName = stripExtension fileName
           in if baseName = [] then None
              else if m = Path then
                (let normalizedBase = normalizePath baseDir;
                     relative = normalizePath (path_relative wd normalizedBase normalized)
                 in Some (stripExtension relative))
              else if baseName = ''index'' then
                (if length parts \<ge> 2
                 then (let p = parts ! (length parts - 2) in if p = [] then None else Some p)
                 else None)
              else Some baseName)"

text \<open>\<open>if (key)\<close>: a key that is neither \<open>null\<close> nor the empty string.\<close>

definition truthy :: "string option \<Rightarrow> bool" where
  "truthy k = (case k of None \<Rightarrow> False | Some s \<Rightarrow> s \<noteq> [])"

text \<open>
  \<open>detectNamespace\<close>: \<open>relative.match(/^(@[^/]+\/[^/]+)\//)\<close>. The relative path must
  start with \<open>@\<close>, a non-empty scope, a slash, a non-empty name and a slash.
\<close>

definition detectNamespace :: "string \<Rightarrow> string \<Rightarrow> string \<Rightarrow> string option" where
  "detectNamespace wd filePath overrideDir =
     (let relative = normalizePath (path_relative wd overrideDir filePath)
      in case relative of
           [] \<Rightarrow> None
         | c # rest \<Rightarrow>
             if c \<noteq> CHR ''@'' then None
             else
               let scope = takeWhile (\<lambda>x. x \<noteq> CHR ''/'') rest;
                   r1 = dropWhile (\<lambda>x. x \<noteq> CHR ''/'') rest
               in if scope = [] \<or> r1 = [] then None
                  else
                    let nm = takeWhile (\<lambda>x. x \<noteq> CHR ''/'') (tl r1);
                        r2 = dropWhile (\<lambda>x. x \<noteq> CHR ''/'') (tl r1)
                    in if nm = [] \<or> r2 = [] then None
                       else Some (CHR ''@'' # scope @ ''/'' @ nm))"

fun scanTargetFiles :: "string \<Rightarrow> ResolvedTarget \<Rightarrow> ResolvedOptions \<Rightarrow> OverrideMap \<Rightarrow> string list \<Rightarrow> OverrideMap" where
  "scanTargetFiles wd target opts m [] = m"
| "scanTargetFiles wd target opts m (f # fs) =
     (let key = getOverrideKey wd f (srcPath target) (matchStrategy opts)
      in scanTargetFiles wd target opts (if truthy key then map_set m (the key) f else m) fs)"

definition scanTarget :: "filesystem \<Rightarrow> ResolvedTarget \<Rightarrow> ResolvedOptions \<Rightarrow> OverrideMap" where
  "scanTarget fs target opts =
     scanTargetFiles (cwd fs) target opts []
       (collectFiles fs (srcPath target) (extensionSet opts) 0)"

record TargetFile =
  target :: ResolvedTarget
  filePath :: string

type_synonym TargetFiles = "(string, TargetFile) jsmap"

fun combineTarget :: "ResolvedTarget \<Rightarrow> TargetFiles \<Rightarrow> OverrideMap \<Rightarrow> TargetFiles" where
  "combineTarget t combined [] = combined"
| "combineTarget t combined ((key, fp) # rest) =
     combineTarget t (map_set combined key \<lparr>target = t, filePath = fp\<rparr>) rest"

text \<open>\<open>scanAllTargets\<close>: the loop over \<open>opts.targets\<close>, with the combined map and the log.\<close>

fun scanAllTargetsLoop :: "filesystem \<Rightarrow> ResolvedOptions \<Rightarrow> TargetFiles \<times> console list
    \<Rightarrow> ResolvedTarget list \<Rightarrow> TargetFiles \<times> console list" where
  "scanAllTargetsLoop fs opts acc [] = acc"
| "scanAllTargetsLoop fs opts (combined, out) (t # ts) =
     (let targetMap = scanTarget fs t opts
      in scanAllTargetsLoop fs opts
           (combineTarget t combined targetMap,
            out @ logger_info (debug opts)
              (''Scanned '' @ show_nat (length targetMap) @ '' files in ''
                 @ package t @ '' ('' @ srcPath t @ '')''))
           ts)"

definition scanAllTargets :: "filesystem \<Rightarrow> ResolvedOptions \<Rightarrow> TargetFiles \<times> console list" where
  "scanAllTargets fs opts = scanAllTargetsLoop fs opts ([], []) (targets opts)"

record ScanState =
  flat :: OverrideMap
  namespaced :: NamespacedOverrideMap
  printed :: "console list"

text \<open>The body of the inner loop of \<open>scanOverrides\<close>, for one collected file.\<close>

definition scanOverrideFile :: "string \<Rightarrow> ResolvedOptions \<Rightarrow> string \<Rightarrow> ScanState \<Rightarrow> string \<Rightarrow> ScanState" where
  "scanOverrideFile wd opts dir s fullPath =
     (let relative = normalizePath (path_relative wd dir fullPath)
      in if list_ex (\<lambda>part. startsWith part ''_'') (split CHR ''/'' relative) then s
         else
           let ns = detectNamespace wd fullPath dir
           in if ns \<noteq> None \<and> the ns \<noteq> [] \<and> the ns \<in> set (map package (targets opts)) then
                (let nsDir = path_join [dir, the ns];
                     key = getOverrideKey wd fullPath nsDir (matchStrategy opts)
                 in if truthy key \<and> key \<noteq> Some ''index'' then
                      s\<lparr>namespaced :=
                           map_set (namespaced s) (the ns)
                             (map_set (case map_get (namespaced s) (the ns) of
                                         None \<Rightarrow> [] | Some m \<Rightarrow> m)
                                (the key) fullPath),
                         printed := printed s @ logger_info (debug opts)
                           (''Override ['' @ the ns @ '']: '' @ the key @ '' -> '' @ fullPath)\<rparr>
                    else s)
              else
                (let key = getOverrideKey wd fullPath dir (matchStrategy opts)
                 in if truthy key \<and> key \<noteq> Some ''index'' then
                      s\<lparr>flat := map_set (flat s) (the key) fullPath,
                         printed := printed s @ logger_info (debug opts)
                           (''Override: '' @ the key @ '' -> '' @ fullPath)\<rparr>
                    else s))"

definition scanOverrideDir :: "filesystem \<Rightarrow> ResolvedOptions \<Rightarrow> ScanState \<Rightarrow> string \<Rightarrow> ScanState" where
  "scanOverrideDir fs opts s dir =
     (if \<not> existsSync fs dir then s
      else foldl (scanOverrideFile (cwd fs) opts dir) s
             (js_sort (collectFiles fs dir (extensionSet opts) 0)))"

definition scanOverrides :: "filesystem \<Rightarrow> ResolvedOptions \<Rightarrow> ScanState" where
  "scanOverrides fs opts =
     foldl (scanOverrideDir fs opts) \<lparr>flat = [], namespaced = [], printed = []\<rparr> (overrideDirs opts)"

section \<open>config.ts\<close>

definition CONFIG_EXTENSIONS :: "string list" where
  "CONFIG_EXTENSIONS = [''.tsx'', ''.ts'', ''.jsx'', ''.js'']"

text \<open>\<open>findConfigFile\<close>: the first existing \<open>dir/basename.ext\<close>, directories first.\<close>

definition findConfigFile :: "filesystem \<Rightarrow> string \<Rightarrow> string list \<Rightarrow> string option" where
  "findConfigFile fs basename dirs =
     find (existsSync fs)
       (concat (map (\<lambda>dir. map (\<lambda>ext. path_resolve (cwd fs) [dir, basename @ ext]) CONFIG_EXTENSIONS)
                  dirs))"

section \<open>resolver.ts\<close>

record ResolverState =
  flatOverrides :: OverrideMap
  namespacedOverrides :: NamespacedOverrideMap
  targetFiles :: TargetFiles

text \<open>\<open>findImporterTarget\<close>: the loop over \<open>opts.targets\<close>; the first target that owns the importer wins.\<close>

fun findImporterTargetLoop :: "string \<Rightarrow> ResolvedTarget list \<Rightarrow> ResolvedTarget option" where
  "findImporterTargetLoop norm [] = None"
| "findImporterTargetLoop norm (t # ts) =
     (let normSrc = normalizePath (srcPath t)
      in if startsWith norm (normSrc @ ''/'') \<or> norm = normSrc then Some t
         else
           let pkgDir = normalizePath (path_dirname (srcPath t))
           in if startsWith norm (pkgDir @ ''/'') then Some t
              else findImporterTargetLoop norm ts)"

definition findImporterTarget :: "string \<Rightarrow> ResolvedOptions \<Rightarrow> ResolvedTarget option" where
  "findImporterTarget importer opts = findImporterTargetLoop (normalizePath importer) (targets opts)"

text \<open>
  \<open>s.replace(/\?.*$/, "")\<close>: the dot matches no line terminator and, without the
  \<open>m\<close> flag, the dollar only the end of the string. So the match starts at the first
  question mark with no line terminator anywhere behind it, and runs to the end; when
  there is no such question mark the string stays as it is.
\<close>

fun stripQuery :: "string \<Rightarrow> string" where
  "stripQuery [] = []"
| "stripQuery (c # s) =
     (if c = CHR ''?'' \<and> \<not> hasLineTerminator s then [] else c # stripQuery s)"

text \<open>\<open>norm.replace(/\/dist\/app\.(mjs|js)$/, "/src/app.tsx")\<close>.\<close>

definition replaceDistApp :: "string \<Rightarrow> string" where
  "replaceDistApp norm =
     (if endsWith norm ''/dist/app.mjs''
      then take (length norm - length ''/dist/app.mjs'') norm @ ''/src/app.tsx''
      else if endsWith norm ''/dist/app.js''
      then take (length norm - length ''/dist/app.js'') norm @ ''/src/app.tsx''
      else norm)"

fun resolveEntryRedirectLoop :: "filesystem \<Rightarrow> bool \<Rightarrow> string \<Rightarrow> string \<Rightarrow> ResolvedTarget list
    \<Rightarrow> string option \<times> console list" where
  "resolveEntryRedirectLoop fs dbg resolvedId norm [] = (None, [])"
| "resolveEntryRedirectLoop fs dbg resolvedId norm (t # ts) =
     (case entryRedirect t of
        Some er \<Rightarrow>
          (let fromPattern = normalizePath (rfrom er)
           in if endsWith norm (''/'' @ fromPattern) \<or> str_includes norm (''/'' @ fromPattern)
              then
                (let pkgDir = path_dirname (srcPath t);
                     srcEntry = path_join [pkgDir, rto er]
                 in if existsSync fs srcEntry
                    then (Some srcEntry,
                          logger_info dbg (''Entry redirect: '' @ path_basename resolvedId
                             @ '' -> '' @ rto er))
                    else resolveEntryRedirectLoop fs dbg resolvedId norm ts)
              else resolveEntryRedirectLoop fs dbg resolvedId norm ts)
      | None \<Rightarrow>
          (let lastPart = last (split CHR ''/'' (package t))
           in if str_includes norm (''/'' @ lastPart @ ''/dist/app.'')
              then
                (let srcEntry = replaceDistApp norm
                 in if existsSync fs srcEntry
                    then (Some srcEntry,
                          logger_info dbg ''Entry redirect (auto): dist/app -> src/app.tsx'')
                    else resolveEntryRedirectLoop fs dbg resolvedId norm ts)
              else resolveEntryRedirectLoop fs dbg resolvedId norm ts))"

definition resolveEntryRedirect :: "filesystem \<Rightarrow> string \<Rightarrow> ResolvedOptions \<Rightarrow> string option \<times> console list" where
  "resolveEntryRedirect fs resolvedId opts =
     resolveEntryRedirectLoop fs (debug opts) resolvedId
       (stripQuery (normalizePath resolvedId)) (targets opts)"

section \<open>plugin.ts\<close>

text \<open>
  \<open>this.resolve(source, importer, {skipSelf: true})\<close> is the host's own resolution:
  a function from the specifier and the importer to the resolved id, \<open>None\<close> for \<open>null\<close>.
\<close>

type_synonym hostResolve = "string \<Rightarrow> string \<Rightarrow> string option"

definition isTargetSpecifier :: "string \<Rightarrow> ResolvedTarget \<Rightarrow> bool" where
  "isTargetSpecifier source t = (source = package t \<or> startsWith source (package t @ ''/''))"

definition redirectResolved :: "filesystem \<Rightarrow> ResolvedOptions \<Rightarrow> hostResolve \<Rightarrow> string \<Rightarrow> string
    \<Rightarrow> string option \<times> console list" where
  "redirectResolved fs opts resolve source importer =
     (case resolve source importer of
        None \<Rightarrow> (None, [])
      | Some rid \<Rightarrow> resolveEntryRedirect fs rid opts)"

text \<open>The loop of \<open>resolveId\<close> for an importer outside every target.\<close>

fun resolveOutsideLoop :: "filesystem \<Rightarrow> ResolvedOptions \<Rightarrow> hostResolve \<Rightarrow> string \<Rightarrow> string
    \<Rightarrow> ResolvedTarget list \<Rightarrow> string option \<times> console list" where
  "resolveOutsideLoop fs opts resolve source importer [] = (None, [])"
| "resolveOutsideLoop fs opts resolve source importer (t # ts) =
     (if \<not> isTargetSpecifier source t
      then resolveOutsideLoop fs opts resolve source importer ts
      else
        (case redirectResolved fs opts resolve source importer of
           (Some r, out) \<Rightarrow> (Some r, out)
         | (None, out) \<Rightarrow>
             (let (r, out') = resolveOutsideLoop fs opts resolve source importer ts
              in (r, out @ out'))))"

definition NUL :: string where
  "NUL = [CHR 0x00]"

text \<open>
  \<open>resolveId(source, importer)\<close>: the importer is \<open>None\<close> when it is \<open>undefined\<close>.
  The result is the resolved path (\<open>None\<close> for \<open>null\<close>) and what was logged.
\<close>

definition resolveId :: "filesystem \<Rightarrow> ResolvedOptions \<Rightarrow> ResolverState \<Rightarrow> hostResolve
    \<Rightarrow> string \<Rightarrow> string option \<Rightarrow> string option \<times> console list" where
  "resolveId fs opts state resolve source importer =
     (if startsWith source NUL \<or> importer = None \<or> importer = Some [] \<or> startsWith (the importer) NUL
      then (None, [])
      else
        (case findImporterTarget (the importer) opts of
           Some t \<Rightarrow>
             (let basename = stripExtension (path_basename source);
                  nsOverrides = map_get (namespacedOverrides state) (package t)
              in if basename \<noteq> [] \<and> basename \<noteq> ''index'' \<and> nsOverrides \<noteq> None
                      \<and> map_has (the nsOverrides) basename
                 then (let p = the (map_get (the nsOverrides) basename)
                       in (Some p, logger_info (debug opts)
                            (''Override ['' @ package t @ '']: '' @ basename @ '' -> '' @ path_basename p)))
                 else if basename \<noteq> [] \<and> basename \<noteq> ''index'' \<and> map_has (flatOverrides state) basename
                 then (let p = the (map_get (flatOverrides state) basename)
                       in (Some p, logger_info (debug opts)
                            (''Override: '' @ basename @ '' -> '' @ path_basename p)))
                 else if isTargetSpecifier source t
                 then redirectResolved fs opts resolve source (the importer)
                 else (None, []))
         | None \<Rightarrow> resolveOutsideLoop fs opts resolve source (the importer) (targets opts)))"

text \<open>
  The start of \<open>unlock\<close>: the flat overrides that match no target file are dropped,
  each with a warning.
\<close>

fun filterFlatOverrides :: "TargetFiles \<Rightarrow> OverrideMap \<times> console list \<Rightarrow> OverrideMap
    \<Rightarrow> OverrideMap \<times> console list" where
  "filterFlatOverrides tf acc [] = acc"
| "filterFlatOverrides tf (fileOverrides, out) ((key, overridePath) # rest) =
     (if map_has tf key
      then filterFlatOverrides tf (map_set fileOverrides key overridePath, out) rest
      else filterFlatOverrides tf
             (fileOverrides,
              out @ logger_warn (''Override '' @ dq @ key
                @ dq @ '' does not match any file in target packages '' @ emDash
                @ '' skipped''))
             rest)"

text \<open>
  \<open>detectConflicts\<close>: \<open>Inl\<close> is the message of the \<open>Error\<close> thrown, \<open>Inr\<close> the
  warnings printed when nothing is thrown.
\<close>

fun detectConflictsLoop :: "ResolvedOptions \<Rightarrow> (ResolvedTarget \<times> OverrideMap) list \<Rightarrow> console list
    \<Rightarrow> string list \<Rightarrow> string + console list" where
  "detectConflictsLoop opts perTargetMaps out [] = Inr out"
| "detectConflictsLoop opts perTargetMaps out (key # keys) =
     (let matchingTargets = filter (\<lambda>(t, files). map_has files key) perTargetMaps
      in if length matchingTargets > 1 then
           (let names = join '', '' (map (\<lambda>(t, files). package t) matchingTargets)
            in if onConflict opts = OnError then
                 Inl (''['' @ PLUGIN_NAME @ ''] Override '' @ dq @ key
                      @ dq @ '' matches files in multiple targets: '' @ names @ ''. ''
                      @ ''Use namespaced overrides (overrides/@scope/pkg/'' @ key
                      @ ''.tsx) or set onConflict: '' @ dq @ ''warn'' @ dq @ ''.'')
               else if onConflict opts = OnWarn then
                 detectConflictsLoop opts perTargetMaps
                   (out @ logger_warn (''Override '' @ dq @ key
                      @ dq @ '' matches files in multiple targets: '' @ names @ ''. Using first match.''))
                   keys
               else detectConflictsLoop opts perTargetMaps out keys)
         else detectConflictsLoop opts perTargetMaps out keys)"

definition detectConflicts :: "filesystem \<Rightarrow> OverrideMap \<Rightarrow> ResolvedOptions \<Rightarrow> string + console list" where
  "detectConflicts fs flatMap opts =
     detectConflictsLoop opts (map (\<lambda>t. (t, scanTarget fs t opts)) (targets opts)) []
       (map_keys flatMap)"

datatype Plugin = Inactive | Active ResolverState

text \<open>
  \<open>unlock\<close>, up to the plugin object it returns: \<open>Inl\<close> is the message of the
  \<open>Error\<close> thrown, \<open>Inr\<close> the plugin (inactive, or active with its resolver state)
  and what was printed. The patch lines of the log are left out with the patches.
\<close>

definition logActiveOverrides :: "bool \<Rightarrow> OverrideMap \<Rightarrow> NamespacedOverrideMap \<Rightarrow> console list" where
  "logActiveOverrides dbg fileOverrides namespacedMap =
     (let totalFileOverrides =
            length fileOverrides + sum_list (map (\<lambda>(ns, m). length m) namespacedMap)
      in if totalFileOverrides > 0 then
           logger_info dbg (''Active overrides: '' @ show_nat totalFileOverrides)
           @ (if length fileOverrides > 0
              then logger_info dbg (''  File-level: '' @ join '', '' (map_keys fileOverrides))
              else [])
           @ concat (map (\<lambda>(ns, m). logger_info dbg (''  ['' @ ns @ '']: '' @ join '', '' (map_keys m)))
                       namespacedMap)
         else [])"

definition unlock :: "filesystem \<Rightarrow> ResolvedOptions \<Rightarrow> string + Plugin \<times> console list" where
  "unlock fs opts =
     (if length (targets opts) = 0
      then Inr (Inactive, logger_warn ''No target packages found. Plugin will be inactive.'')
      else
        let (tf, out1) = scanAllTargets fs opts;
            scan = scanOverrides fs opts;
            (fileOverrides, out2) = filterFlatOverrides tf ([], []) (flat scan);
            conflicts =
              (if length (targets opts) > 1 \<and> length fileOverrides > 0
               then detectConflicts fs fileOverrides opts else Inr [])
        in case conflicts of
             Inl err \<Rightarrow> Inl err
           | Inr out3 \<Rightarrow>
               Inr (Active \<lparr>flatOverrides = fileOverrides,
                             namespacedOverrides = namespaced scan, targetFiles = tf\<rparr>,
                    out1 @ printed scan @ out2 @ out3
                    @ logActiveOverrides (debug opts) fileOverrides (namespaced scan)))"

section \<open>The host's dev server\<close>

text \<open>
  What the watcher uses of the host: the module graph (\<open>idToModuleMap\<close>, the file
  of a module (absent when it is \<open>null\<close>), \<open>getModulesByFile\<close>, the importers of a
  module, \<open>invalidateModule\<close>) and the socket (\<open>send\<close>). A module node is a
  number. \<open>invalidated\<close> lists the nodes \<open>invalidateModule\<close> was called
  on, in the order of the calls, and \<open>sent\<close> the payloads sent to the client.
\<close>

type_synonym ModuleNode = nat

record ModuleGraph =
  idToModuleMap :: "(string, ModuleNode) jsmap"
  moduleFile :: "(ModuleNode, string) jsmap"
  fileToModulesMap :: "(string, ModuleNode list) jsmap"
  importersMap :: "(ModuleNode, ModuleNode list) jsmap"

datatype payload = FullReload

record ViteDevServer =
  moduleGraph :: ModuleGraph
  invalidated :: "ModuleNode list"
  sent :: "payload list"

definition getModulesByFile :: "ModuleGraph \<Rightarrow> string \<Rightarrow> ModuleNode list option" where
  "getModulesByFile g f = map_get (fileToModulesMap g) f"

definition importers :: "ModuleGraph \<Rightarrow> ModuleNode \<Rightarrow> ModuleNode list" where
  "importers g m = (case map_get (importersMap g) m of None \<Rightarrow> [] | Some ms \<Rightarrow> ms)"

definition invalidateModules :: "ViteDevServer \<Rightarrow> ModuleNode list \<Rightarrow> ViteDevServer" where
  "invalidateModules srv ms = srv\<lparr>invalidated := invalidated srv @ ms\<rparr>"

definition send :: "ViteDevServer \<Rightarrow> payload \<Rightarrow> ViteDevServer" where
  "send srv pl = srv\<lparr>sent := sent srv @ [pl]\<rparr>"

text \<open>A JavaScript \<open>Set\<close>: insertion order, no element twice.\<close>

definition set_add :: "'a list \<Rightarrow> 'a \<Rightarrow> 'a list" where
  "set_add xs x = (if x \<in> set xs then xs else xs @ [x])"

definition set_addAll :: "'a list \<Rightarrow> 'a list \<Rightarrow> 'a list" where
  "set_addAll xs ys = foldl set_add xs ys"

section \<open>watcher.ts\<close>

definition allImporters :: "ModuleGraph \<Rightarrow> ModuleNode set" where
  "allImporters g = set (concat (map snd (importersMap g)))"

text \<open>
  The breadth-first loop of \<open>invalidateForKey\<close>: \<open>seen\<close> in the order of the
  insertions, which is the order of the \<open>invalidateModule\<close> calls of the loop.
\<close>

function invalidateAncestors :: "ModuleGraph \<Rightarrow> ModuleNode list \<Rightarrow> ModuleNode list \<Rightarrow> ModuleNode list" where
  "invalidateAncestors g seen [] = seen"
| "invalidateAncestors g seen (m # queue) =
     (if m \<in> set seen then invalidateAncestors g seen queue
      else invalidateAncestors g (seen @ [m]) (queue @ importers g m))"
  by pat_completeness auto
termination
proof (relation "measures [\<lambda>(g, seen, queue). card ((allImporters g \<union> set queue) - set seen),
                            \<lambda>(g, seen, queue). length queue]")
  show "wf (measures [\<lambda>(g, seen, queue). card ((allImporters g \<union> set queue) - set seen),
                      \<lambda>(g, seen, queue). length queue])"
    by simp
next
  fix g :: ModuleGraph and seen :: "ModuleNode list" and m :: ModuleNode and queue :: "ModuleNode list"
  assume "m \<in> set seen"
  then have "(allImporters g \<union> set queue) - set seen = (allImporters g \<union> set (m # queue)) - set seen"
    by auto
  then show "((g, seen, queue), (g, seen, m # queue))
      \<in> measures [\<lambda>(g, seen, queue). card ((allImporters g \<union> set queue) - set seen),
                   \<lambda>(g, seen, queue). length queue]"
    by simp
next
  fix g :: ModuleGraph and seen :: "ModuleNode list" and m :: ModuleNode and queue :: "ModuleNode list"
  assume m: "m \<notin> set seen"
  have sub: "set (importers g m) \<subseteq> allImporters g"
  proof (cases "map_of (importersMap g) m")
    case None
    then show ?thesis by (simp add: importers_def map_get_def)
  next
    case (Some ms)
    then have "(m, ms) \<in> set (importersMap g)" by (rule map_of_SomeD)
    then have "set ms \<subseteq> allImporters g"
      by (force simp: allImporters_def)
    then show ?thesis using Some by (simp add: importers_def map_get_def)
  qed
  have fin: "finite ((allImporters g \<union> set (m # queue)) - set seen)"
    by (simp add: allImporters_def)
  have "(allImporters g \<union> set (queue @ importers g m)) - set (seen @ [m])
          \<subset> (allImporters g \<union> set (m # queue)) - set seen"
    using m sub by auto
  then have "card ((allImporters g \<union> set (queue @ importers g m)) - set (seen @ [m]))
          < card ((allImporters g \<union> set (m # queue)) - set seen)"
    using fin by (rule psubset_card_mono [rotated])
  then show "((g, seen @ [m], queue @ importers g m), (g, seen, m # queue))
      \<in> measures [\<lambda>(g, seen, queue). card ((allImporters g \<union> set queue) - set seen),
                   \<lambda>(g, seen, queue). length queue]"
    by simp
qed

text \<open>
  \<open>invalidateForKey\<close>: the roots are the modules of the original target file and of
  the override file; they are invalidated, then their ancestors.
\<close>

definition invalidateForKey :: "string \<Rightarrow> bool \<Rightarrow> OverrideMap \<Rightarrow> ResolverState \<Rightarrow> ViteDevServer \<Rightarrow> bool
    \<Rightarrow> ViteDevServer \<times> console list" where
  "invalidateForKey key isNowOverride oldOverrides state srv dbg =
     (let g = moduleGraph srv;
          roots0 =
            (case map_get (targetFiles state) key of
               None \<Rightarrow> []
             | Some targetInfo \<Rightarrow>
                 (case getModulesByFile g (normalizePath (filePath targetInfo)) of
                    None \<Rightarrow> []
                  | Some mods \<Rightarrow> set_addAll [] mods));
          overridePath =
            (if isNowOverride then map_get (flatOverrides state) key
             else map_get oldOverrides key);
          roots =
            (case overridePath of
               None \<Rightarrow> roots0
             | Some p \<Rightarrow>
                 if p = [] then roots0
                 else (case getModulesByFile g (normalizePath p) of
                         None \<Rightarrow> roots0
                       | Some mods \<Rightarrow> set_addAll roots0 mods))
      in if length roots > 0 then
           (let seen = invalidateAncestors g [] (concat (map (importers g) roots))
            in (invalidateModules (invalidateModules srv roots) seen,
                logger_info dbg (''Invalidated '' @ dq @ key @ dq @ '' + ''
                   @ show_nat (length seen) @ '' ancestor modules'')))
         else
           (srv, logger_info dbg (''Override map updated for '' @ dq @ key @ dq
                   @ '' (module not in graph yet)'')))"

record Session =
  resolver :: ResolverState
  devServer :: ViteDevServer
  consoleOut :: "console list"

text \<open>The filter of the debounced callback: no warning is printed here.\<close>

fun filterByTargets :: "TargetFiles \<Rightarrow> OverrideMap \<Rightarrow> OverrideMap \<Rightarrow> OverrideMap" where
  "filterByTargets tf fileOverrides [] = fileOverrides"
| "filterByTargets tf fileOverrides ((key, overridePath) # rest) =
     filterByTargets tf
       (if map_has tf key then map_set fileOverrides key overridePath else fileOverrides) rest"

definition diffAction :: "bool \<Rightarrow> bool \<Rightarrow> string" where
  "diffAction was is_now = (if is_now then (if was then ''changed'' else ''created'') else ''deleted'')"

text \<open>
  One diff loop, over the keys of the old and the new map: \<open>label\<close> is the head of
  the log line, \<open>changes\<close> the flag \<open>hasChanges\<close>.
\<close>

fun diffKeys :: "bool \<Rightarrow> string \<Rightarrow> OverrideMap \<Rightarrow> OverrideMap \<Rightarrow> ResolverState
    \<Rightarrow> ViteDevServer \<times> console list \<times> bool \<Rightarrow> string list \<Rightarrow> ViteDevServer \<times> console list \<times> bool" where
  "diffKeys dbg label oldMap newMap state acc [] = acc"
| "diffKeys dbg label oldMap newMap state (srv, out, changes) (key # keys) =
     (let was = map_has oldMap key;
          is_now = map_has newMap key
      in if was = is_now \<and> map_get oldMap key = map_get newMap key
         then diffKeys dbg label oldMap newMap state (srv, out, changes) keys
         else
           (let (srv', out') = invalidateForKey key is_now oldMap state srv dbg
            in diffKeys dbg label oldMap newMap state
                 (srv',
                  out @ logger_info dbg (label @ dq @ key @ dq @ '' '' @ diffAction was is_now) @ out',
                  True)
                 keys))"

definition orEmpty :: "OverrideMap option \<Rightarrow> OverrideMap" where
  "orEmpty m = (case m of None \<Rightarrow> [] | Some x \<Rightarrow> x)"

fun diffNamespaces :: "bool \<Rightarrow> NamespacedOverrideMap \<Rightarrow> NamespacedOverrideMap \<Rightarrow> ResolverState
    \<Rightarrow> ViteDevServer \<times> console list \<times> bool \<Rightarrow> string list \<Rightarrow> ViteDevServer \<times> console list \<times> bool" where
  "diffNamespaces dbg oldNamespaced newNamespaced state acc [] = acc"
| "diffNamespaces dbg oldNamespaced newNamespaced state acc (ns # rest) =
     (let oldMap = orEmpty (map_get oldNamespaced ns);
          newMap = orEmpty (map_get newNamespaced ns);
          nsKeys = set_addAll [] (map_keys oldMap @ map_keys newMap)
      in diffNamespaces dbg oldNamespaced newNamespaced state
           (diffKeys dbg (''Override ['' @ ns @ ''] '') oldMap newMap state acc nsKeys) rest)"

text \<open>
  The debounced callback of \<open>handleStructuralChange\<close>: rescan, filter, swap, diff and,
  when a key changed, one full reload.
\<close>

definition rebuild :: "filesystem \<Rightarrow> ResolvedOptions \<Rightarrow> Session \<Rightarrow> Session" where
  "rebuild fs opts ses =
     (let oldFlat = flatOverrides (resolver ses);
          oldNamespaced = namespacedOverrides (resolver ses);
          scan = scanOverrides fs opts;
          fileOverrides = filterByTargets (targetFiles (resolver ses)) [] (flat scan);
          state = (resolver ses)\<lparr>flatOverrides := fileOverrides,
                                 namespacedOverrides := namespaced scan\<rparr>;
          allKeys = set_addAll [] (map_keys oldFlat @ map_keys fileOverrides);
          acc1 = diffKeys (debug opts) ''Override '' oldFlat fileOverrides state
                   (devServer ses, consoleOut ses @ printed scan, False) allKeys;
          allNs = set_addAll [] (map_keys oldNamespaced @ map_keys (namespaced scan));
          (srv, out, hasChanges) =
            diffNamespaces (debug opts) oldNamespaced (namespaced scan) state acc1 allNs
      in if hasChanges
         then \<lparr>resolver = state, devServer = send srv FullReload,
               consoleOut = out @ logger_info (debug opts) ''Structural change detected -> full reload''\<rparr>
         else \<lparr>resolver = state, devServer = srv, consoleOut = out\<rparr>)"

definition isOverrideFile :: "ResolvedOptions \<Rightarrow> string \<Rightarrow> bool" where
  "isOverrideFile opts file =
     list_ex (\<lambda>dir. startsWith (normalizePath file) (normalizePath dir @ ''/'')) (overrideDirs opts)"

text \<open>The handler of the watcher's \<open>change\<close> event.\<close>

definition contentChange :: "ResolvedOptions \<Rightarrow> Session \<Rightarrow> string \<Rightarrow> Session" where
  "contentChange opts ses file =
     (if path_extname file \<notin> extensionSet opts then ses
      else if \<not> isOverrideFile opts file then ses
      else
        let basename = stripExtension (path_basename file);
            state = resolver ses;
            g = moduleGraph (devServer ses)
        in if basename = [] then ses
           else if \<not> (map_has (flatOverrides state) basename
                       \<or> list_ex (\<lambda>(ns, m). map_has m basename) (namespacedOverrides state))
           then ses
           else
             (case getModulesByFile g (normalizePath file) of
                Some (m # ms) \<Rightarrow> ses
              | _ \<Rightarrow>
                  (case map_get (targetFiles state) basename of
                     None \<Rightarrow> ses
                   | Some targetInfo \<Rightarrow>
                       (case getModulesByFile g (normalizePath (filePath targetInfo)) of
                          None \<Rightarrow> ses
                        | Some origMods \<Rightarrow>
                            ses\<lparr>devServer := send (invalidateModules (devServer ses) origMods) FullReload,
                                consoleOut := consoleOut ses @ logger_info (debug opts)
                                  (''Override content changed: '' @ basename @ '' -> reload'')\<rparr>))))"

text \<open>
  \<open>invalidatePatchTarget\<close>: every module whose file matches the pattern is
  invalidated, then the ancestors of these modules, breadth first.
\<close>

definition invalidatePatchTarget :: "ResolvedPatch \<Rightarrow> ViteDevServer \<Rightarrow> bool \<Rightarrow> ViteDevServer \<times> console list" where
  "invalidatePatchTarget patch srv dbg =
     (let g = moduleGraph srv;
          matching = filter (\<lambda>m. case map_get (moduleFile g) m of
                                    None \<Rightarrow> False
                                  | Some f \<Rightarrow> f \<noteq> [] \<and> patchTarget patch (normalizePath f))
                       (map snd (idToModuleMap g));
          roots = set_addAll [] matching;
          seen = invalidateAncestors g [] (concat (map (importers g) roots))
      in (invalidateModules (invalidateModules srv matching) seen,
          concat (map (\<lambda>m. logger_info dbg (''Invalidated patch target: ''
                                @ path_basename (the (map_get (moduleFile g) m)))) matching)
          @ (if length roots > 0 \<and> length seen > 0
             then logger_info dbg (''Invalidated '' @ show_nat (length seen) @ '' ancestor modules'')
             else [])))"

text \<open>
  \<open>handlePatchConfigStructural\<close>: the loop over the patches, with the patches
  already visited in \<open>done\<close>.
\<close>

fun patchConfigStructuralLoop :: "filesystem \<Rightarrow> ResolvedOptions \<Rightarrow> string \<Rightarrow> ResolvedPatch list
    \<Rightarrow> Session \<Rightarrow> ResolvedPatch list \<Rightarrow> ResolvedPatch list \<times> Session" where
  "patchConfigStructuralLoop fs opts basename done ses [] = (done, ses)"
| "patchConfigStructuralLoop fs opts basename done ses (patch # rest) =
     (if basename \<noteq> configFile patch
      then patchConfigStructuralLoop fs opts basename (done @ [patch]) ses rest
      else
        let newPath = findConfigFile fs (configFile patch) (overrideDirs opts)
        in if newPath = configPath patch
           then patchConfigStructuralLoop fs opts basename (done @ [patch]) ses rest
           else
             (let patch' = patch\<lparr>configPath := newPath\<rparr>;
                  (srv, out) = invalidatePatchTarget patch' (devServer ses) (debug opts)
              in patchConfigStructuralLoop fs opts basename (done @ [patch'])
                   (ses\<lparr>devServer := send srv FullReload,
                        consoleOut := consoleOut ses
                          @ logger_info (debug opts)
                              (''Patch config ''
                               @ (if newPath \<noteq> None \<and> newPath \<noteq> Some [] then ''detected'' else ''removed'')
                               @ '': '' @ configFile patch)
                          @ out\<rparr>)
                   rest))"

definition handlePatchConfigStructural :: "filesystem \<Rightarrow> ResolvedOptions \<Rightarrow> string
    \<Rightarrow> ResolvedPatch list \<times> Session \<Rightarrow> ResolvedPatch list \<times> Session" where
  "handlePatchConfigStructural fs opts file ps =
     (let basename = stripExtension (path_basename file)
      in if basename = [] then ps
         else if \<not> isOverrideFile opts file then ps
         else patchConfigStructuralLoop fs opts basename [] (snd ps) (fst ps))"

text \<open>\<open>handlePatchConfigContentEdit\<close>: the first patch bound to the edited file.\<close>

fun handlePatchConfigContentEdit :: "ResolvedOptions \<Rightarrow> string \<Rightarrow> Session \<Rightarrow> ResolvedPatch list \<Rightarrow> Session" where
  "handlePatchConfigContentEdit opts file ses [] = ses"
| "handlePatchConfigContentEdit opts file ses (patch # rest) =
     (if configPath patch = None \<or> configPath patch = Some []
      then handlePatchConfigContentEdit opts file ses rest
      else if normalizePath (the (configPath patch)) \<noteq> normalizePath file
      then handlePatchConfigContentEdit opts file ses rest
      else
        (let (srv, out) = invalidatePatchTarget patch (devServer ses) (debug opts)
         in ses\<lparr>devServer := send srv FullReload,
                consoleOut := consoleOut ses
                  @ logger_info (debug opts) (''Patch config content changed: '' @ configFile patch)
                  @ out\<rparr>))"

text \<open>
  The watcher with its timer. \<open>clock\<close> counts milliseconds; \<open>debounceTimer\<close> is the
  time at which the pending timeout is due (\<open>None\<close>: nothing pending);
  \<open>recomputations\<close> counts the runs of the debounced callback; \<open>patches\<close> are the
  patches of the options.
\<close>

record Watcher =
  session :: Session
  patches :: "ResolvedPatch list"
  clock :: nat
  debounceTimer :: "nat option"
  recomputations :: nat

definition DEBOUNCE_MS :: nat where
  "DEBOUNCE_MS = 50"

definition handleStructuralChange :: "ResolvedOptions \<Rightarrow> string \<Rightarrow> Watcher \<Rightarrow> Watcher" where
  "handleStructuralChange opts file w =
     (if path_extname file \<notin> extensionSet opts then w
      else if \<not> isOverrideFile opts file then w
      else w\<lparr>debounceTimer := Some (clock w + DEBOUNCE_MS)\<rparr>)"

text \<open>
  The listeners of \<open>add\<close> and \<open>unlink\<close>, in the order of their registration; the
  patch listener reads the disk of the moment.
\<close>

definition onAddUnlink :: "(nat \<Rightarrow> filesystem) \<Rightarrow> ResolvedOptions \<Rightarrow> string \<Rightarrow> Watcher \<Rightarrow> Watcher" where
  "onAddUnlink disk opts file w =
     (let w1 = handleStructuralChange opts file w;
          (ps, ses) = handlePatchConfigStructural (disk (clock w1)) opts file (patches w1, session w1)
      in w1\<lparr>patches := ps, session := ses\<rparr>)"

definition onChange :: "ResolvedOptions \<Rightarrow> string \<Rightarrow> Watcher \<Rightarrow> Watcher" where
  "onChange opts file w =
     w\<lparr>session := handlePatchConfigContentEdit opts file
                      (contentChange opts (session w) file) (patches w)\<rparr>"

text \<open>
  What happens to the watcher: a file is added, removed or edited, or one millisecond
  passes. The disk is a function of the time; a timeout fires in the millisecond it is
  due, and the callback reads the disk of that moment.
\<close>

datatype event = Add string | Unlink string | Change string | Millisecond

fun step :: "(nat \<Rightarrow> filesystem) \<Rightarrow> ResolvedOptions \<Rightarrow> Watcher \<Rightarrow> event \<Rightarrow> Watcher" where
  "step disk opts w (Add file) = onAddUnlink disk opts file w"
| "step disk opts w (Unlink file) = onAddUnlink disk opts file w"
| "step disk opts w (Change file) = onChange opts file w"
| "step disk opts w Millisecond =
     (let t = clock w + 1
      in case debounceTimer w of
           None \<Rightarrow> w\<lparr>clock := t\<rparr>
         | Some due \<Rightarrow>
             if due \<le> t
             then w\<lparr>clock := t, debounceTimer := None,
                    session := rebuild (disk t) opts (session w),
                    recomputations := recomputations w + 1\<rparr>
             else w\<lparr>clock := t\<rparr>)"

definition run :: "(nat \<Rightarrow> filesystem) \<Rightarrow> ResolvedOptions \<Rightarrow> Watcher \<Rightarrow> event list \<Rightarrow> Watcher" where
  "run disk opts w events = foldl (step disk opts) w events"

section \<open>Notions used in the statements\<close>

definition frame :: "ViteDevServer \<times> console list \<times> bool \<Rightarrow> payload list \<times> ModuleGraph \<times> console list" where
  "frame acc = (sent (fst acc), moduleGraph (fst acc), filter isWarn (fst (snd acc)))"

text \<open>The three results of the two diff passes of the rebuild.\<close>

definition rebuildDiff :: "filesystem \<Rightarrow> ResolvedOptions \<Rightarrow> Session \<Rightarrow> ViteDevServer \<times> console list \<times> bool" where
  "rebuildDiff fs opts ses =
     (let oldFlat = flatOverrides (resolver ses);
          oldNamespaced = namespacedOverrides (resolver ses);
          scan = scanOverrides fs opts;
          fileOverrides = filterByTargets (targetFiles (resolver ses)) [] (flat scan);
          state = (resolver ses)\<lparr>flatOverrides := fileOverrides,
                                 namespacedOverrides := namespaced scan\<rparr>;
          allKeys = set_addAll [] (map_keys oldFlat @ map_keys fileOverrides);
          acc1 = diffKeys (debug opts) ''Override '' oldFlat fileOverrides state
                   (devServer ses, consoleOut ses @ printed scan, False) allKeys;
          allNs = set_addAll [] (map_keys oldNamespaced @ map_keys (namespaced scan))
      in diffNamespaces (debug opts) oldNamespaced (namespaced scan) state acc1 allNs)"

text \<open>
  A structural event that reschedules the recomputation and is no patch's config file:
  a file with an allowed extension under an override directory, added or removed.
\<close>

definition structural :: "ResolvedOptions \<Rightarrow> ResolvedPatch list \<Rightarrow> event \<Rightarrow> bool" where
  "structural opts ps e =
     (case e of
        Add f \<Rightarrow> path_extname f \<in> extensionSet opts \<and> isOverrideFile opts f
                   \<and> list_all (\<lambda>p. stripExtension (path_basename f) \<noteq> configFile p) ps
      | Unlink f \<Rightarrow> path_extname f \<in> extensionSet opts \<and> isOverrideFile opts f
                   \<and> list_all (\<lambda>p. stripExtension (path_basename f) \<noteq> configFile p) ps
      | _ \<Rightarrow> False)"

text \<open>A burst: each event with the milliseconds that pass before the next one.\<close>

definition burstEvents :: "(event \<times> nat) list \<Rightarrow> event list" where
  "burstEvents burst = concat (map (\<lambda>(e, gap). e # replicate gap Millisecond) burst)"

text \<open>The milliseconds from the first event of a burst to the end of its last gap.\<close>

definition burstDuration :: "(event \<times> nat) list \<Rightarrow> nat" where
  "burstDuration burst = sum_list (map snd burst)"

text \<open>The warnings of the conflict detection at the start, when it runs and does not throw.\<close>

definition conflictWarnings :: "filesystem \<Rightarrow> ResolvedOptions \<Rightarrow> OverrideMap \<Rightarrow> console list" where
  "conflictWarnings fs opts fileOverrides =
     (if length (targets opts) > 1 \<and> length fileOverrides > 0
      then (case detectConflicts fs fileOverrides opts of Inl err \<Rightarrow> [] | Inr w \<Rightarrow> w)
      else [])"

text \<open>The keys a scan stores in the namespaced mapping: never empty, never \<open>index\<close>.\<close>

definition nsKeysValid :: "NamespacedOverrideMap \<Rightarrow> bool" where
  "nsKeysValid nsm = list_all (\<lambda>(ns, m). list_all (\<lambda>(k, p). k \<noteq> [] \<and> k \<noteq> ''index'') m) nsm"

text \<open>\<open>y\<close> imports \<open>x\<close>, directly or through other modules.\<close>

inductive importsTransitively :: "ModuleGraph \<Rightarrow> ModuleNode \<Rightarrow> ModuleNode \<Rightarrow> bool" where
  direct: "y \<in> set (importers g x) \<Longrightarrow> importsTransitively g x y"
| step: "importsTransitively g x y \<Longrightarrow> z \<in> set (importers g y) \<Longrightarrow> importsTransitively g x z"

text \<open>The path \<open>invalidateForKey\<close> takes for the override file of a key.\<close>

definition lookedUpOverride :: "string \<Rightarrow> bool \<Rightarrow> OverrideMap \<Rightarrow> ResolverState \<Rightarrow> string option" where
  "lookedUpOverride key isNowOverride oldOverrides state =
     (if isNowOverride then map_get (flatOverrides state) key else map_get oldOverrides key)"

text \<open>The roots of \<open>invalidateForKey\<close>: the modules of the target file and of the override file.\<close>

definition isRoot :: "string \<Rightarrow> bool \<Rightarrow> OverrideMap \<Rightarrow> ResolverState \<Rightarrow> ModuleGraph \<Rightarrow> ModuleNode \<Rightarrow> bool" where
  "isRoot key isNowOverride oldOverrides state g r =
     ((\<exists>targetInfo mods. map_get (targetFiles state) key = Some targetInfo
          \<and> getModulesByFile g (normalizePath (filePath targetInfo)) = Some mods \<and> r \<in> set mods)
      \<or> (\<exists>p mods. lookedUpOverride key isNowOverride oldOverrides state = Some p \<and> p \<noteq> []
          \<and> getModulesByFile g (normalizePath p) = Some mods \<and> r \<in> set mods))"

text \<open>
  The two mappings of a resolver state come from one scan of some disk: the flat one
  filtered by the state's target file index, the namespaced one as scanned.
\<close>

definition fromOneScan :: "ResolvedOptions \<Rightarrow> ResolverState \<Rightarrow> bool" where
  "fromOneScan opts st =
     (\<exists>fs. flatOverrides st = filterByTargets (targetFiles st) [] (flat (scanOverrides fs opts))
           \<and> namespacedOverrides st = namespaced (scanOverrides fs opts))"

text \<open>The targets whose own scan holds a key, and whether they are more than one.\<close>

definition matchingTargets :: "filesystem \<Rightarrow> ResolvedOptions \<Rightarrow> string \<Rightarrow> ResolvedTarget list" where
  "matchingTargets fs opts key = filter (\<lambda>t. map_has (scanTarget fs t opts) key) (targets opts)"

definition conflicting :: "filesystem \<Rightarrow> ResolvedOptions \<Rightarrow> string \<Rightarrow> bool" where
  "conflicting fs opts key = (length (matchingTargets fs opts key) > 1)"

definition conflictNames :: "filesystem \<Rightarrow> ResolvedOptions \<Rightarrow> string \<Rightarrow> string" where
  "conflictNames fs opts key = join '', '' (map package (matchingTargets fs opts key))"

text \<open>
  The conflict detection as the policies describe it: under \<open>error\<close> the message for the
  first conflicting key is thrown, under \<open>warn\<close> one warning per conflicting key is
  printed, under \<open>first\<close> nothing happens.
\<close>

definition conflictPolicy :: "filesystem \<Rightarrow> OverrideMap \<Rightarrow> ResolvedOptions \<Rightarrow> string + console list" where
  "conflictPolicy fs flatMap opts =
     (case onConflict opts of
        OnError \<Rightarrow>
          (case find (conflicting fs opts) (map_keys flatMap) of
             None \<Rightarrow> Inr []
           | Some key \<Rightarrow>
               Inl (''['' @ PLUGIN_NAME @ ''] Override '' @ dq @ key @ dq
                    @ '' matches files in multiple targets: '' @ conflictNames fs opts key @ ''. ''
                    @ ''Use namespaced overrides (overrides/@scope/pkg/'' @ key
                    @ ''.tsx) or set onConflict: '' @ dq @ ''warn'' @ dq @ ''.''))
      | OnWarn \<Rightarrow>
          Inr (concat (map (\<lambda>key. logger_warn (''Override '' @ dq @ key @ dq
                   @ '' matches files in multiple targets: '' @ conflictNames fs opts key
                   @ ''. Using first match.''))
                 (filter (conflicting fs opts) (map_keys flatMap))))
      | OnFirst \<Rightarrow> Inr [])"

section \<open>Concrete configurations\<close>

text \<open>Small configurations and disks on which the functions above are run.\<close>

definition mkTarget :: "string \<Rightarrow> string \<Rightarrow> ResolvedTarget" where
  "mkTarget pkg src = \<lparr>package = pkg, target_alias = generateAlias pkg, srcDir = DEFAULT_SRC_DIR,
     srcPath = src, entryRedirect = None, hmr = None, entryFilePath = None\<rparr>"

definition mkOptions :: "ResolvedTarget list \<Rightarrow> ConflictStrategy \<Rightarrow> ResolvedOptions" where
  "mkOptions ts pol = \<lparr>targets = ts, overrideDirs = [''/ov''], matchStrategy = Basename,
     onConflict = pol, debug = False, extensions = DEFAULT_EXTENSIONS\<rparr>"

definition fileEntry :: "string \<Rightarrow> dirent" where "fileEntry n = \<lparr>name = n, kind = KFile\<rparr>"

definition dirEntry :: "string \<Rightarrow> dirent" where "dirEntry n = \<lparr>name = n, kind = KDirectory\<rparr>"

definition mkFs :: "(string \<times> dirent list) list \<Rightarrow> string list \<Rightarrow> filesystem" where
  "mkFs dirs files = \<lparr>readdirSync = map_of dirs, existsSync = (\<lambda>p. p \<in> set (map fst dirs) \<or> p \<in> set files), cwd = ''/''\<rparr>"

definition fs_root_index :: filesystem where
  "fs_root_index = mkFs [(''/ov'', [fileEntry ''index.tsx''])] [''/ov/index.tsx'']"

definition fs_index_dir :: filesystem where
  "fs_index_dir = mkFs [(''/ov'', [dirEntry ''index'']), (''/ov/index'', [fileEntry ''index.tsx''])]
     [''/ov/index/index.tsx'']"

definition ui :: ResolvedTarget where "ui = mkTarget ''@acme/ui'' ''/nm/@acme/ui/src''"

definition mylib :: ResolvedTarget where "mylib = mkTarget ''my-lib'' ''/nm/my-lib/src''"

definition fs_bare :: filesystem where
  "fs_bare = mkFs [(''/ov'', [dirEntry ''my-lib'']), (''/ov/my-lib'', [fileEntry ''Button.tsx''])] [''/ov/my-lib/Button.tsx'']"

definition fs_scoped :: filesystem where
  "fs_scoped = mkFs [(''/ov'', [dirEntry ''@acme'']), (''/ov/@acme'', [dirEntry ''ui'']),
       (''/ov/@acme/ui'', [fileEntry ''Button.tsx''])] [''/ov/@acme/ui/Button.tsx'']"

definition app :: ResolvedTarget where "app = mkTarget ''@acme/app'' ''/nm/@acme/app/src''"

definition nested_ui :: ResolvedTarget where
  "nested_ui = mkTarget ''@acme/ui'' ''/nm/@acme/app/node_modules/@acme/ui/src''"

definition noResolve :: hostResolve where "noResolve source importer = None"

definition state_both :: ResolverState where
  "state_both = \<lparr>flatOverrides = [(''Button'', ''/ov/Button.tsx'')],
      namespacedOverrides = [(''@acme/ui'', [(''Button'', ''/ov/@acme/ui/Button.tsx'')])],
      targetFiles = [(''Button'', \<lparr>target = ui, filePath = ''/nm/@acme/ui/src/Button.tsx''\<rparr>)]\<rparr>"

definition dash :: ResolvedTarget where
  "dash = mkTarget ''@acme/dashboard'' ''/nm/@acme/dashboard/src''"

definition dash_explicit :: ResolvedTarget where
  "dash_explicit = dash\<lparr>entryRedirect := Some \<lparr>rfrom = ''dist/index.mjs'', rto = ''src/index.tsx''\<rparr>\<rparr>"

definition fs_entry :: filesystem where
  "fs_entry = mkFs [] [''/nm/@acme/dashboard/dist/app.mjs'', ''/nm/@acme/dashboard/src/app.tsx'']"

definition fs_entry_absent :: filesystem where
  "fs_entry_absent = mkFs [] [''/nm/@acme/dashboard/dist/app.mjs'']"

definition resolveDash :: hostResolve where
  "resolveDash source importer =
     (if source = ''@acme/dashboard'' then Some ''/nm/@acme/dashboard/dist/app.mjs'' else None)"

definition resolveDashQuery :: hostResolve where
  "resolveDashQuery source importer =
     (if source = ''@acme/dashboard'' then Some ''/nm/@acme/dashboard/dist/app.mjs?v=1a2b'' else None)"

definition resolveDashSeparator :: hostResolve where
  "resolveDashSeparator source importer =
     (if source = ''@acme/dashboard''
      then Some (''/nm/@acme/dashboard/dist/app.mjs?a'' @ lineSeparator @ ''b'') else None)"

definition state_empty :: ResolverState where
  "state_empty = \<lparr>flatOverrides = [], namespacedOverrides = [], targetFiles = []\<rparr>"

definition fs_conflict :: filesystem where
  "fs_conflict = mkFs
     [(''/nm/@acme/dashboard/src'', [fileEntry ''Button.tsx'']),
      (''/nm/@acme/ui/src'', [fileEntry ''Button.tsx'']),
      (''/ov'', [fileEntry ''Button.tsx''])]
     [''/nm/@acme/dashboard/src/Button.tsx'', ''/nm/@acme/ui/src/Button.tsx'', ''/ov/Button.tsx'']"

definition state_conflict :: ResolverState where
  "state_conflict = \<lparr>flatOverrides = [(''Button'', ''/ov/Button.tsx'')], namespacedOverrides = [],
     targetFiles = [(''Button'', \<lparr>target = ui, filePath = ''/nm/@acme/ui/src/Button.tsx''\<rparr>)]\<rparr>"


definition state_flat :: ResolverState where
  "state_flat = \<lparr>flatOverrides = [(''Button'', ''/ov/Button.tsx'')], namespacedOverrides = [],
      targetFiles = [(''Button'', \<lparr>target = ui, filePath = ''/nm/@acme/ui/src/Button.tsx''\<rparr>)]\<rparr>"



definition fs_flat_button :: filesystem where
  "fs_flat_button = mkFs [(''/ov'', [fileEntry ''Button.tsx''])] [''/ov/Button.tsx'']"

definition graph_overrides :: ModuleGraph where
  "graph_overrides =
     \<lparr>idToModuleMap = [(''/nm/@acme/ui/src/Button.tsx'', 1), (''/ov/@acme/ui/Button.tsx'', 2),
                        (''/proj/src/main.tsx'', 3), (''/nm/@acme/ui/src/App.tsx'', 4),
                        (''/ov/Button.tsx'', 5), (''/proj/src/other.tsx'', 6)],
      moduleFile = [(1, ''/nm/@acme/ui/src/Button.tsx''), (2, ''/ov/@acme/ui/Button.tsx''),
                    (3, ''/proj/src/main.tsx''), (4, ''/nm/@acme/ui/src/App.tsx''),
                    (5, ''/ov/Button.tsx''), (6, ''/proj/src/other.tsx'')],
      fileToModulesMap = [(''/nm/@acme/ui/src/Button.tsx'', [1]), (''/ov/@acme/ui/Button.tsx'', [2]),
                          (''/proj/src/main.tsx'', [3]), (''/nm/@acme/ui/src/App.tsx'', [4]),
                          (''/ov/Button.tsx'', [5]), (''/proj/src/other.tsx'', [6])],
      importersMap = [(1, [4]), (2, [3]), (5, [6])]\<rparr>"

definition session_before :: Session where
  "session_before =
     \<lparr>resolver = \<lparr>flatOverrides = [], namespacedOverrides = [],
          targetFiles = [(''Button'', \<lparr>target = ui, filePath = ''/nm/@acme/ui/src/Button.tsx''\<rparr>)]\<rparr>,
      devServer = \<lparr>moduleGraph = graph_overrides, invalidated = [], sent = []\<rparr>,
      consoleOut = []\<rparr>"

definition watcher0 :: Watcher where
  "watcher0 = \<lparr>session = session_before, patches = [], clock = 0, debounceTimer = None,
                recomputations = 0\<rparr>"

definition menuPatch :: ResolvedPatch where
  "menuPatch = \<lparr>patchTarget = (\<lambda>f. endsWith f ''main-layout.tsx''), configFile = ''menu.config'',
                 patchApply = (\<lambda>code path. code), configPath = None\<rparr>"

definition fs_menu :: filesystem where
  "fs_menu = mkFs [(''/ov'', [fileEntry ''menu.config.ts''])] [''/ov/menu.config.ts'']"

definition fs_empty :: filesystem where
  "fs_empty = mkFs [(''/ov'', [])] []"

definition disk_menu :: "nat \<Rightarrow> filesystem" where
  "disk_menu t = (if t = 0 then fs_menu else fs_empty)"

definition disk_button :: "nat \<Rightarrow> filesystem" where
  "disk_button t = (if t < 109 then fs_empty else fs_scoped)"

definition fs_special :: filesystem where
  "fs_special = mkFs
     [(''/nm/@acme/ui/src'', [fileEntry ''Button.tsx'']),
      (''/ov'', [dirEntry ''@acme'']), (''/ov/@acme'', [dirEntry ''ui'']),
      (''/ov/@acme/ui'', [fileEntry ''Special.tsx''])]
     [''/nm/@acme/ui/src/Button.tsx'', ''/ov/@acme/ui/Special.tsx'']"

definition state_special :: ResolverState where
  "state_special = \<lparr>flatOverrides = [],
      namespacedOverrides = [(''@acme/ui'', [(''Special'', ''/ov/@acme/ui/Special.tsx'')])],
      targetFiles = [(''Button'', \<lparr>target = ui, filePath = ''/nm/@acme/ui/src/Button.tsx''\<rparr>)]\<rparr>"

definition server_overrides :: ViteDevServer where
  "server_overrides = \<lparr>moduleGraph = graph_overrides, invalidated = [], sent = []\<rparr>"

section \<open>Properties of the scanner\<close>

text \<open>
  The order of \<open>js_sort\<close> is the order of the code units: a name with the character
  \<open>U+1F600\<close> (a pair of surrogates) comes before a name with \<open>U+FFFD\<close>, although its
  bytes are the greater ones.
\<close>

lemma codeUnits_astral: "codeUnits [CHR 0xF0, CHR 0x9F, CHR 0x98, CHR 0x80] = [0xD83D, 0xDE00]"
  by (simp add: continuationBytes_def leadBits_def codePoint_def surrogates_def)

lemma codeUnits_bmp: "codeUnits [CHR 0xEF, CHR 0xBF, CHR 0xBD] = [0xFFFD]"
  by (simp add: continuationBytes_def leadBits_def codePoint_def surrogates_def)

lemma js_sort_code_units:
  "js_sort [[CHR 0xEF, CHR 0xBF, CHR 0xBD], [CHR 0xF0, CHR 0x9F, CHR 0x98, CHR 0x80]]
     = [[CHR 0xF0, CHR 0x9F, CHR 0x98, CHR 0x80], [CHR 0xEF, CHR 0xBF, CHR 0xBD]]"
  by (simp add: js_sort_def codeUnits_astral codeUnits_bmp del: codeUnits.simps)

lemma in_STRIPPED:
  "ext \<in> set STRIPPED_EXTENSIONS \<longleftrightarrow> ext = ''.tsx'' \<or> ext = ''.ts'' \<or> ext = ''.jsx'' \<or> ext = ''.js''
     \<or> ext = ''.mts'' \<or> ext = ''.mjs'' \<or> ext = ''.vue'' \<or> ext = ''.svelte''"
  by (simp add: STRIPPED_EXTENSIONS_def)

lemma stripExtension_index:
  "ext \<in> set STRIPPED_EXTENSIONS \<Longrightarrow> stripExtension (''index'' @ ext) = ''index''"
  unfolding in_STRIPPED
  by (elim disjE; simp add: STRIPPED_EXTENSIONS_def stripExtension_def endsWith_def)

lemma index_ext_segment:
  "ext \<in> set STRIPPED_EXTENSIONS \<Longrightarrow> segments (''index'' @ ext) = [''index'' @ ext]"
  unfolding in_STRIPPED
  by (elim disjE; simp add: segments_def)

lemma index_ext_normal:
  "ext \<in> set STRIPPED_EXTENSIONS \<Longrightarrow> normalizePath (''index'' @ ext) = ''index'' @ ext"
  unfolding in_STRIPPED
  by (elim disjE; simp add: normalizePath_def)

lemma split_nonempty: "split c s \<noteq> []"
  by (induction s) (auto split: list.splits)

lemma split_append_sep: "split c (a @ c # b) = split c a @ split c b"
proof (induction a)
  case Nil
  show ?case by simp
next
  case (Cons x a)
  then show ?case
    using split_nonempty [of c a] by (cases "split c a") auto
qed

lemma split_no_sep: "c \<notin> set s \<Longrightarrow> split c s = [s]"
  by (induction s) auto

lemma segments_append_sep: "segments (a @ CHR ''/'' # b) = segments a @ segments b"
  by (simp add: segments_def split_append_sep)

lemma segments_single: "s \<noteq> [] \<Longrightarrow> CHR ''/'' \<notin> set s \<Longrightarrow> segments s = [s]"
  by (simp add: segments_def split_no_sep)

lemma normalizePath_append: "normalizePath (a @ b) = normalizePath a @ normalizePath b"
  by (simp add: normalizePath_def)

lemma normalizePath_id: "CHR 0x5C \<notin> set s \<Longrightarrow> normalizePath s = s"
  by (induction s) (auto simp: normalizePath_def)

lemma getOverrideKey_index_in_dir:
  assumes "foo \<noteq> []" "CHR ''/'' \<notin> set foo" "CHR 0x5C \<notin> set foo"
    and "ext \<in> set STRIPPED_EXTENSIONS"
  shows "getOverrideKey wd (dir @ ''/'' @ foo @ ''/index'' @ ext) base Basename = Some foo"
proof -
  let ?file = "dir @ ''/'' @ foo @ ''/index'' @ ext"
  have n: "normalizePath ?file = normalizePath dir @ CHR ''/'' # foo @ CHR ''/'' # (''index'' @ ext)"
    using assms index_ext_normal [of ext] normalizePath_id [of foo]
    by (simp add: normalizePath_append) (simp add: normalizePath_def)
  have parts: "segments (normalizePath ?file) = segments (normalizePath dir) @ [foo, ''index'' @ ext]"
    unfolding n using assms index_ext_segment [of ext]
    by (simp add: segments_append_sep segments_single)
  show ?thesis
    unfolding getOverrideKey_def Let_def parts
    using assms stripExtension_index [of ext]
    by (simp add: nth_append)
qed

lemma map_of_map_set: "map_of (map_set m k v) = (map_of m)(k \<mapsto> v)"
  by (induction m) (auto simp: fun_eq_iff)

lemma map_get_map_set: "map_get (map_set m k v) k' = (if k' = k then Some v else map_get m k')"
  by (simp add: map_get_def map_of_map_set)

lemma map_has_map_set: "map_has (map_set m k v) k' \<longleftrightarrow> k' = k \<or> map_has m k'"
  by (simp add: map_has_def map_of_map_set)

lemma scanOverrideFile_no_index:
  "\<not> map_has (flat s) ''index'' \<Longrightarrow> \<not> map_has (flat (scanOverrideFile wd opts dir s f)) ''index''"
  by (auto simp: scanOverrideFile_def Let_def map_has_map_set truthy_def split: option.splits)

lemma foldl_scanOverrideFile_no_index:
  "\<not> map_has (flat s) ''index'' \<Longrightarrow>
   \<not> map_has (flat (foldl (scanOverrideFile wd opts dir) s files)) ''index''"
  by (induction files arbitrary: s) (simp_all add: scanOverrideFile_no_index)

lemma scanOverrideDir_no_index:
  "\<not> map_has (flat s) ''index'' \<Longrightarrow> \<not> map_has (flat (scanOverrideDir fs opts s dir)) ''index''"
  by (simp add: scanOverrideDir_def foldl_scanOverrideFile_no_index)

lemma foldl_scanOverrideDir_no_index:
  "\<not> map_has (flat s) ''index'' \<Longrightarrow>
   \<not> map_has (flat (foldl (scanOverrideDir fs opts) s dirs)) ''index''"
  by (induction dirs arbitrary: s) (simp_all add: scanOverrideDir_no_index)

lemma scanOverrides_no_index: "\<not> map_has (flat (scanOverrides fs opts)) ''index''"
  unfolding scanOverrides_def
  by (rule foldl_scanOverrideDir_no_index) (simp add: map_has_def)

lemma takeWhile_until: "c \<notin> set a \<Longrightarrow> takeWhile (\<lambda>x. x \<noteq> c) (a @ c # b) = a"
  by (induction a) auto

lemma dropWhile_until: "c \<notin> set a \<Longrightarrow> dropWhile (\<lambda>x. x \<noteq> c) (a @ c # b) = c # b"
  by (induction a) auto

lemma detectNamespace_scoped:
  assumes "normalizePath (path_relative wd dir file) = CHR ''@'' # scope @ ''/'' @ nm @ ''/'' @ rest"
    and "scope \<noteq> []" "CHR ''/'' \<notin> set scope" "nm \<noteq> []" "CHR ''/'' \<notin> set nm"
  shows "detectNamespace wd file dir = Some (CHR ''@'' # scope @ ''/'' @ nm)"
proof -
  have t1: "takeWhile (\<lambda>x. x \<noteq> CHR ''/'') (scope @ CHR ''/'' # nm @ CHR ''/'' # rest) = scope"
    using assms(3) by (rule takeWhile_until)
  have d1: "dropWhile (\<lambda>x. x \<noteq> CHR ''/'') (scope @ CHR ''/'' # nm @ CHR ''/'' # rest)
              = CHR ''/'' # nm @ CHR ''/'' # rest"
    using assms(3) by (rule dropWhile_until)
  have t2: "takeWhile (\<lambda>x. x \<noteq> CHR ''/'') (nm @ CHR ''/'' # rest) = nm"
    using assms(5) by (rule takeWhile_until)
  have d2: "dropWhile (\<lambda>x. x \<noteq> CHR ''/'') (nm @ CHR ''/'' # rest) = CHR ''/'' # rest"
    using assms(5) by (rule dropWhile_until)
  show ?thesis
    unfolding detectNamespace_def assms(1) Let_def
    using assms(2,4) by (simp add: t1 d1 t2 d2)
qed

lemma detectNamespace_bare:
  "\<not> startsWith (normalizePath (path_relative wd dir file)) ''@'' \<Longrightarrow>
   detectNamespace wd file dir = None"
  by (auto simp: detectNamespace_def startsWith_def Let_def split: list.splits)

lemma getOverrideKey_basename_base:
  "getOverrideKey wd f base Basename = getOverrideKey wd' f base' Basename"
  by (simp add: getOverrideKey_def Let_def)

lemma scanOverrideFile_index_dropped:
  assumes "matchStrategy opts = Basename" and "getOverrideKey wd f dir Basename = Some ''index''"
  shows "scanOverrideFile wd opts dir s f = s"
proof -
  have "getOverrideKey wd f b Basename = Some ''index''" for b
    using assms(2) getOverrideKey_basename_base [of wd f b wd dir] by simp
  then show ?thesis
    using assms(1) by (simp add: scanOverrideFile_def Let_def)
qed

text \<open>
  Claim C8, as amended. Under the basename strategy a file \<open>index.<ext>\<close>, for one of
  the eight extensions \<open>stripExtension\<close> removes, in a directory named \<open>foo\<close>
  (non-empty, without slash or backslash) at any depth below the scanned directory
  \<open>base\<close>, has the override key \<open>foo\<close>. A collected file whose key is the literal
  \<open>index\<close> is dropped: the scan state after it is the state before it. And no scan of
  the override directories stores the key \<open>index\<close> in the flat mapping.
\<close>

theorem index_file_key:
  assumes "foo \<noteq> []" and "CHR ''/'' \<notin> set foo" and "CHR 0x5C \<notin> set foo"
    and "ext \<in> set STRIPPED_EXTENSIONS"
    and "matchStrategy opts = Basename"
    and "getOverrideKey wd f dir Basename = Some ''index''"
  shows "getOverrideKey wd (base @ sub @ ''/'' @ foo @ ''/index'' @ ext) base Basename = Some foo
       \<and> scanOverrideFile wd opts dir s f = s
       \<and> \<not> map_has (flat (scanOverrides fs opts)) ''index''"
  using getOverrideKey_index_in_dir [OF assms(1-4), of wd "base @ sub" base]
    scanOverrideFile_index_dropped [OF assms(5,6)] scanOverrides_no_index
  by simp

theorem index_file_key_witness:
  "getOverrideKey ''/'' (''/ov'' @ ''/a'' @ ''/'' @ ''foo'' @ ''/index'' @ ''.tsx'') ''/ov'' Basename = Some ''foo''
   \<and> scanOverrideFile ''/'' (mkOptions [ui] OnError) ''/ov''
        \<lparr>flat = [(''Button'', ''/ov/Button.tsx'')], namespaced = [], printed = []\<rparr> ''/ov/index/index.tsx''
      = \<lparr>flat = [(''Button'', ''/ov/Button.tsx'')], namespaced = [], printed = []\<rparr>
   \<and> \<not> map_has (flat (scanOverrides fs_index_dir (mkOptions [ui] OnError))) ''index''"
proof -
  have strat: "matchStrategy (mkOptions [ui] OnError) = Basename" by code_simp
  have key: "getOverrideKey ''/'' ''/ov/index/index.tsx'' ''/ov'' Basename = Some ''index''" by code_simp
  show ?thesis
    using index_file_key [where foo = "''foo''" and ext = "''.tsx''" and wd = "''/''" and base = "''/ov''"
        and sub = "''/a''" and opts = "mkOptions [ui] OnError" and f = "''/ov/index/index.tsx''"
        and dir = "''/ov''" and fs = fs_index_dir
        and s = "\<lparr>flat = [(''Button'', ''/ov/Button.tsx'')], namespaced = [], printed = []\<rparr>",
        OF _ _ _ _ strat key]
    by (simp add: STRIPPED_EXTENSIONS_def)
qed

text \<open>
  An index file directly in the override root \<open>/ov\<close> has the key \<open>ov\<close>, not
  \<open>index\<close>, and the scan stores it; \<open>foo/index.css\<close> has the key \<open>index.css\<close>, not
  \<open>foo\<close>; and \<open>index/index.tsx\<close> has the key \<open>index\<close>.
\<close>

theorem root_index_file_counterexample:
  "flat (scanOverrides fs_root_index (mkOptions [ui] OnError)) = [(''ov'', ''/ov/index.tsx'')]
   \<and> getOverrideKey ''/'' ''/ov/foo/index.css'' ''/ov'' Basename = Some ''index.css''
   \<and> getOverrideKey ''/'' ''/ov/index/index.tsx'' ''/ov'' Basename = Some ''index''"
  by code_simp

text \<open>
  Claim C5, as amended. A collected file whose path relative to the override root starts
  with \<open>@scope/name/\<close>, the package of a configured target, leaves the flat mapping as
  it is; unless it is skipped (a piece starting with \<open>_\<close>, an empty key or the key
  \<open>index\<close>) it is stored in the namespaced mapping under \<open>@scope/name\<close> and its key.
  A file whose relative path does not start with \<open>@\<close> (a bare \<open>name\<close> directory)
  never reaches the namespaced mapping.
\<close>

theorem scoped_file_is_namespaced:
  assumes rel: "normalizePath (path_relative wd dir fullPath) = CHR ''@'' # scope @ ''/'' @ nm @ ''/'' @ rest"
    and scope: "scope \<noteq> []" "CHR ''/'' \<notin> set scope"
    and nm: "nm \<noteq> []" "CHR ''/'' \<notin> set nm"
    and pkg: "CHR ''@'' # scope @ ''/'' @ nm \<in> set (map package (targets opts))"
  shows "(let ns = CHR ''@'' # scope @ ''/'' @ nm;
              s' = scanOverrideFile wd opts dir s fullPath;
              key = getOverrideKey wd fullPath (path_join [dir, ns]) (matchStrategy opts)
          in flat s' = flat s \<and>
             (if list_ex (\<lambda>part. startsWith part ''_'')
                   (split CHR ''/'' (normalizePath (path_relative wd dir fullPath)))
                 \<or> \<not> truthy key \<or> key = Some ''index''
              then s' = s
              else \<exists>m. map_get (namespaced s') ns = Some m \<and> map_get m (the key) = Some fullPath))
       \<and> (\<not> startsWith (normalizePath (path_relative wd dir other)) ''@''
            \<longrightarrow> namespaced (scanOverrideFile wd opts dir s other) = namespaced s)"
proof -
  have dn: "detectNamespace wd fullPath dir = Some (CHR ''@'' # scope @ ''/'' @ nm)"
    using rel scope nm by (rule detectNamespace_scoped)
  have bare: "\<not> startsWith (normalizePath (path_relative wd dir other)) ''@''
       \<Longrightarrow> namespaced (scanOverrideFile wd opts dir s other) = namespaced s"
    by (simp add: scanOverrideFile_def Let_def detectNamespace_bare)
  show ?thesis
    using pkg bare
    by (simp add: scanOverrideFile_def Let_def dn map_get_map_set)
qed

theorem scoped_file_is_namespaced_witness:
  "(let ns = ''@acme/ui'';
        s' = scanOverrideFile ''/'' (mkOptions [ui] OnError) ''/ov'' \<lparr>flat = [], namespaced = [], printed = []\<rparr> ''/ov/@acme/ui/Button.tsx''
    in flat s' = [] \<and> (\<exists>m. map_get (namespaced s') ns = Some m \<and> map_get m ''Button'' = Some ''/ov/@acme/ui/Button.tsx''))
   \<and> namespaced (scanOverrideFile ''/'' (mkOptions [ui] OnError) ''/ov'' \<lparr>flat = [], namespaced = [], printed = []\<rparr> ''/ov/my-lib/Button.tsx'') = []"
proof -
  have rel: "normalizePath (path_relative ''/'' ''/ov'' ''/ov/@acme/ui/Button.tsx'')
               = CHR ''@'' # ''acme'' @ ''/'' @ ''ui'' @ ''/'' @ ''Button.tsx''"
    by code_simp
  have pkg: "CHR ''@'' # ''acme'' @ ''/'' @ ''ui'' \<in> set (map package (targets (mkOptions [ui] OnError)))"
    by code_simp
  have key: "getOverrideKey ''/'' ''/ov/@acme/ui/Button.tsx'' (path_join [''/ov'', ''@acme/ui''])
               (matchStrategy (mkOptions [ui] OnError)) = Some ''Button''"
    by code_simp
  have skip: "\<not> list_ex (\<lambda>part. startsWith part ''_'')
                 (split CHR ''/'' (normalizePath (path_relative ''/'' ''/ov'' ''/ov/@acme/ui/Button.tsx'')))"
    by code_simp
  have bare: "\<not> startsWith (normalizePath (path_relative ''/'' ''/ov'' ''/ov/my-lib/Button.tsx'')) ''@''"
    by code_simp
  show ?thesis
    using scoped_file_is_namespaced [OF rel _ _ _ _ pkg,
        of "\<lparr>flat = [], namespaced = [], printed = []\<rparr>" "''/ov/my-lib/Button.tsx''"]
      key skip bare
    by (simp add: truthy_def Let_def)
qed

text \<open>
  With the unscoped package \<open>my-lib\<close> as the target, \<open>/ov/my-lib/Button.tsx\<close> lands
  in the flat mapping and the namespaced mapping stays empty.
\<close>

theorem bare_name_counterexample:
  "scanOverrides fs_bare (mkOptions [mylib] OnError) =
     \<lparr>flat = [(''Button'', ''/ov/my-lib/Button.tsx'')], namespaced = [], printed = []\<rparr>
   \<and> package mylib = ''my-lib''"
  by code_simp

section \<open>Properties of the resolution\<close>

text \<open>
  Claim C1, as amended. A request whose specifier and importer are not virtual (neither
  starts with the NUL character) and whose importer is owned by the target \<open>t\<close> (the
  first configured target whose source root or package directory is a prefix of the
  importer): when the stripped basename \<open>K\<close> of the specifier is neither empty nor
  \<open>index\<close>, and both the namespaced mapping of \<open>t\<close> and the flat mapping hold
  \<open>K\<close>, the result is the namespaced file.
\<close>

theorem namespaced_precedence:
  assumes "\<not> startsWith source NUL" and "importer \<noteq> []" and "\<not> startsWith importer NUL"
    and "findImporterTarget importer opts = Some t"
    and "stripExtension (path_basename source) = K" and "K \<noteq> []" and "K \<noteq> ''index''"
    and "map_get (namespacedOverrides state) (package t) = Some nsMap"
    and "map_get nsMap K = Some p"
    and "map_get (flatOverrides state) K = Some q"
  shows "fst (resolveId fs opts state resolve source (Some importer)) = Some p"
  using assms by (simp add: resolveId_def Let_def map_has_def map_get_def)

theorem namespaced_precedence_witness:
  "fst (resolveId fs_scoped (mkOptions [ui] OnError) state_both noResolve ''./Button.tsx''
          (Some ''/nm/@acme/ui/src/App.tsx'')) = Some ''/ov/@acme/ui/Button.tsx''"
proof -
  have 1: "\<not> startsWith ''./Button.tsx'' NUL" by code_simp
  have 2: "\<not> startsWith ''/nm/@acme/ui/src/App.tsx'' NUL" by code_simp
  have 3: "findImporterTarget ''/nm/@acme/ui/src/App.tsx'' (mkOptions [ui] OnError) = Some ui" by code_simp
  have 4: "stripExtension (path_basename ''./Button.tsx'') = ''Button''" by code_simp
  have 5: "map_get (namespacedOverrides state_both) (package ui) = Some [(''Button'', ''/ov/@acme/ui/Button.tsx'')]"
    by code_simp
  have 6: "map_get [(''Button'', ''/ov/@acme/ui/Button.tsx'')] ''Button'' = Some ''/ov/@acme/ui/Button.tsx''"
    by code_simp
  have 7: "map_get (flatOverrides state_both) ''Button'' = Some ''/ov/Button.tsx''" by code_simp
  show ?thesis
    by (rule namespaced_precedence [OF 1 _ 2 3 4 _ _ 5 6 7]) simp_all
qed

text \<open>
  A virtual specifier is declined although both mappings hold its key \<open>Button\<close>; and
  an importer inside the source tree of \<open>@acme/ui\<close>, installed below the package
  directory of the target listed first, gets the flat file: the first target owns it.
\<close>

theorem namespaced_precedence_counterexample:
  "fst (resolveId fs_scoped (mkOptions [ui] OnError) state_both noResolve (NUL @ ''virtual/Button.tsx'')
          (Some ''/nm/@acme/ui/src/App.tsx'')) = None
   \<and> stripExtension (path_basename (NUL @ ''virtual/Button.tsx'')) = ''Button''
   \<and> fst (resolveId fs_scoped (mkOptions [app, nested_ui] OnError) state_both noResolve ''./Button.tsx''
          (Some ''/nm/@acme/app/node_modules/@acme/ui/src/App.tsx'')) = Some ''/ov/Button.tsx''
   \<and> startsWith ''/nm/@acme/app/node_modules/@acme/ui/src/App.tsx'' (srcPath nested_ui @ ''/'')"
  by code_simp

lemma str_includes_append: "prefix p b \<Longrightarrow> str_includes (a @ b) p"
  by (induction a) (cases b; auto)+

lemma endsWith_imp_includes:
  assumes "endsWith s p" shows "str_includes s p"
proof -
  from assms obtain z where "rev s = rev p @ z"
    by (auto simp: endsWith_def prefix_def)
  then have "s = rev z @ p"
    by (metis rev_append rev_rev_ident)
  then show ?thesis
    using str_includes_append [of p p "rev z"] by simp
qed

lemma stripQuery_plain: "CHR ''?'' \<notin> set p \<Longrightarrow> stripQuery p = p"
  by (induction p) auto

lemma stripQuery_query:
  "CHR ''?'' \<notin> set p \<Longrightarrow> \<not> hasLineTerminator q \<Longrightarrow> stripQuery (p @ ''?'' @ q) = p"
  by (induction p) auto

lemma replaceDistApp_mjs: "replaceDistApp (a @ ''/dist/app.mjs'') = a @ ''/src/app.tsx''"
  by (simp add: replaceDistApp_def endsWith_def)

lemma replaceDistApp_js: "replaceDistApp (a @ ''/dist/app.js'') = a @ ''/src/app.tsx''"
  by (simp add: replaceDistApp_def endsWith_def)

lemma resolveEntryRedirectLoop_default:
  "(\<forall>t\<in>set ts. \<forall>er. entryRedirect t = Some er
       \<longrightarrow> \<not> str_includes norm (''/'' @ normalizePath (rfrom er))) \<Longrightarrow>
   fst (resolveEntryRedirectLoop fs dbg rid norm ts) =
     (if (\<exists>t\<in>set ts. entryRedirect t = None
            \<and> str_includes norm (''/'' @ last (split CHR ''/'' (package t)) @ ''/dist/app.''))
         \<and> existsSync fs (replaceDistApp norm)
      then Some (replaceDistApp norm) else None)"
proof (induction ts)
  case Nil
  show ?case by simp
next
  case (Cons t ts)
  show ?case
  proof (cases "entryRedirect t")
    case None
    then show ?thesis using Cons by (auto simp: Let_def)
  next
    case (Some er)
    with Cons.prems have "\<not> str_includes norm (''/'' @ normalizePath (rfrom er))" by simp
    moreover from this have "\<not> endsWith norm (''/'' @ normalizePath (rfrom er))"
      using endsWith_imp_includes by blast
    ultimately show ?thesis using Some Cons by (auto simp: Let_def)
  qed
qed

lemma resolveOutsideLoop_fst:
  "fst (resolveOutsideLoop fs opts resolve source importer ts) =
     (if list_ex (isTargetSpecifier source) ts
      then fst (redirectResolved fs opts resolve source importer) else None)"
  by (induction ts) (auto split: prod.splits option.splits)

text \<open>
  Claim C9, as amended. The request names the target package \<open>t\<close> (exactly or as a
  path prefix); specifier and importer are not virtual; the importer lies outside every
  target, or inside \<open>t\<close> with no override for the specifier's basename; \<open>t\<close> has no
  explicit redirect rule and no explicit rule of a target matches the resolved id; the
  host resolves the request to \<open>root/<last piece of the package>/dist/app.mjs\<close> (or
  \<open>.js\<close>), once \<open>stripQuery\<close> has cut the query: a question mark and the text up to
  the end, when no line terminator stands in that text (\<open>stripQuery_query\<close>). Then the
  result is \<open>root/<last piece>/src/app.tsx\<close> when that file exists, and \<open>null\<close> when
  it does not.
\<close>

theorem default_entry_redirect:
  assumes src: "\<not> startsWith source NUL" and imp: "importer \<noteq> []" "\<not> startsWith importer NUL"
    and owner: "findImporterTarget importer opts = None \<or>
        (findImporterTarget importer opts = Some t \<and>
         (stripExtension (path_basename source) = []
          \<or> stripExtension (path_basename source) = ''index''
          \<or> (map_get (flatOverrides state) (stripExtension (path_basename source)) = None
              \<and> (\<forall>m. map_get (namespacedOverrides state) (package t) = Some m
                    \<longrightarrow> map_get m (stripExtension (path_basename source)) = None))))"
    and t: "t \<in> set (targets opts)" "isTargetSpecifier source t" "entryRedirect t = None"
    and noexp: "\<forall>t'\<in>set (targets opts). \<forall>er. entryRedirect t' = Some er
                  \<longrightarrow> \<not> str_includes norm (''/'' @ normalizePath (rfrom er))"
    and res: "resolve source importer = Some rid"
    and norm: "stripQuery (normalizePath rid) = norm"
    and shape: "norm = root @ ''/'' @ last (split CHR ''/'' (package t)) @ ''/dist/app.'' @ e"
    and e: "e = ''mjs'' \<or> e = ''js''"
  shows "fst (resolveId fs opts state resolve source (Some importer)) =
           (if existsSync fs (root @ ''/'' @ last (split CHR ''/'' (package t)) @ ''/src/app.tsx'')
            then Some (root @ ''/'' @ last (split CHR ''/'' (package t)) @ ''/src/app.tsx'')
            else None)"
proof -
  let ?lp = "last (split CHR ''/'' (package t))"
  let ?src = "root @ ''/'' @ ?lp @ ''/src/app.tsx''"
  have rep: "replaceDistApp norm = ?src"
    using e replaceDistApp_mjs [of "root @ ''/'' @ ?lp"] replaceDistApp_js [of "root @ ''/'' @ ?lp"]
    by (auto simp: shape)
  have inc: "str_includes norm (''/'' @ ?lp @ ''/dist/app.'')"
    unfolding shape
    using str_includes_append [of "''/'' @ ?lp @ ''/dist/app.''" "''/'' @ ?lp @ ''/dist/app.'' @ e" root]
    by simp
  have ex: "\<exists>t\<in>set (targets opts). entryRedirect t = None
              \<and> str_includes norm (''/'' @ last (split CHR ''/'' (package t)) @ ''/dist/app.'')"
    using t inc by blast
  have red: "fst (redirectResolved fs opts resolve source importer) =
               (if existsSync fs ?src then Some ?src else None)"
    using resolveEntryRedirectLoop_default [OF noexp, of fs "debug opts" rid] ex
    by (simp add: redirectResolved_def res resolveEntryRedirect_def norm rep)
  have spec: "list_ex (isTargetSpecifier source) (targets opts)"
    using t by (auto simp: list_ex_iff)
  from owner show ?thesis
  proof
    assume "findImporterTarget importer opts = None"
    then show ?thesis
      using src imp red spec by (simp add: resolveId_def resolveOutsideLoop_fst)
  next
    assume "findImporterTarget importer opts = Some t \<and>
        (stripExtension (path_basename source) = []
          \<or> stripExtension (path_basename source) = ''index''
          \<or> (map_get (flatOverrides state) (stripExtension (path_basename source)) = None
              \<and> (\<forall>m. map_get (namespacedOverrides state) (package t) = Some m
                    \<longrightarrow> map_get m (stripExtension (path_basename source)) = None)))"
    then show ?thesis
      using src imp red t(2)
      by (auto simp: resolveId_def Let_def map_has_def map_get_def)
  qed
qed

theorem default_entry_redirect_witness:
  "fst (resolveId fs_entry (mkOptions [dash] OnError) state_empty resolveDash ''@acme/dashboard''
          (Some ''/proj/src/main.tsx'')) = Some ''/nm/@acme/dashboard/src/app.tsx''
   \<and> fst (resolveId fs_entry_absent (mkOptions [dash] OnError) state_empty resolveDash ''@acme/dashboard''
          (Some ''/proj/src/main.tsx'')) = None
   \<and> fst (resolveId fs_entry (mkOptions [dash] OnError) state_empty resolveDashQuery ''@acme/dashboard''
          (Some ''/proj/src/main.tsx'')) = Some ''/nm/@acme/dashboard/src/app.tsx''"
proof -
  let ?opts = "mkOptions [dash] OnError"
  have src: "\<not> startsWith ''@acme/dashboard'' NUL" by code_simp
  have imp: "''/proj/src/main.tsx'' \<noteq> []" "\<not> startsWith ''/proj/src/main.tsx'' NUL" by code_simp+
  have owner: "findImporterTarget ''/proj/src/main.tsx'' ?opts = None \<or>
        (findImporterTarget ''/proj/src/main.tsx'' ?opts = Some dash \<and>
         (stripExtension (path_basename ''@acme/dashboard'') = []
          \<or> stripExtension (path_basename ''@acme/dashboard'') = ''index''
          \<or> (map_get (flatOverrides state_empty) (stripExtension (path_basename ''@acme/dashboard'')) = None
              \<and> (\<forall>m. map_get (namespacedOverrides state_empty) (package dash) = Some m
                    \<longrightarrow> map_get m (stripExtension (path_basename ''@acme/dashboard'')) = None))))"
    by (rule disjI1) code_simp
  have t: "dash \<in> set (targets ?opts)" "isTargetSpecifier ''@acme/dashboard'' dash" "entryRedirect dash = None"
    by code_simp+
  have noexp: "\<forall>t'\<in>set (targets ?opts). \<forall>er. entryRedirect t' = Some er
                  \<longrightarrow> \<not> str_includes ''/nm/@acme/dashboard/dist/app.mjs'' (''/'' @ normalizePath (rfrom er))"
    by (simp add: mkOptions_def dash_def mkTarget_def)
  have res: "resolveDash ''@acme/dashboard'' ''/proj/src/main.tsx'' = Some ''/nm/@acme/dashboard/dist/app.mjs''"
    by code_simp
  have resq: "resolveDashQuery ''@acme/dashboard'' ''/proj/src/main.tsx''
                = Some ''/nm/@acme/dashboard/dist/app.mjs?v=1a2b''"
    by code_simp
  have norm: "stripQuery (normalizePath ''/nm/@acme/dashboard/dist/app.mjs'') = ''/nm/@acme/dashboard/dist/app.mjs''"
    by code_simp
  have normq: "stripQuery (normalizePath ''/nm/@acme/dashboard/dist/app.mjs?v=1a2b'')
                 = ''/nm/@acme/dashboard/dist/app.mjs''"
    by code_simp
  have shape: "''/nm/@acme/dashboard/dist/app.mjs'' =
      ''/nm/@acme'' @ ''/'' @ last (split CHR ''/'' (package dash)) @ ''/dist/app.'' @ ''mjs''"
    by code_simp
  have e: "''mjs'' = ''mjs'' \<or> ''mjs'' = ''js''" by simp
  have lp: "''/nm/@acme'' @ ''/'' @ last (split CHR ''/'' (package dash)) @ ''/src/app.tsx''
              = ''/nm/@acme/dashboard/src/app.tsx''"
    by code_simp
  have ex1: "existsSync fs_entry ''/nm/@acme/dashboard/src/app.tsx''" by code_simp
  have ex2: "\<not> existsSync fs_entry_absent ''/nm/@acme/dashboard/src/app.tsx''" by code_simp
  show ?thesis
    using default_entry_redirect [where source = "''@acme/dashboard''" and importer = "''/proj/src/main.tsx''"
          and opts = "?opts" and t = dash and state = state_empty and resolve = resolveDash
          and rid = "''/nm/@acme/dashboard/dist/app.mjs''" and norm = "''/nm/@acme/dashboard/dist/app.mjs''"
          and root = "''/nm/@acme''" and e = "''mjs''" and fs = fs_entry,
          OF src imp owner t noexp res norm shape e]
      default_entry_redirect [where source = "''@acme/dashboard''" and importer = "''/proj/src/main.tsx''"
          and opts = "?opts" and t = dash and state = state_empty and resolve = resolveDash
          and rid = "''/nm/@acme/dashboard/dist/app.mjs''" and norm = "''/nm/@acme/dashboard/dist/app.mjs''"
          and root = "''/nm/@acme''" and e = "''mjs''" and fs = fs_entry_absent,
          OF src imp owner t noexp res norm shape e]
      default_entry_redirect [where source = "''@acme/dashboard''" and importer = "''/proj/src/main.tsx''"
          and opts = "?opts" and t = dash and state = state_empty and resolve = resolveDashQuery
          and rid = "''/nm/@acme/dashboard/dist/app.mjs?v=1a2b''" and norm = "''/nm/@acme/dashboard/dist/app.mjs''"
          and root = "''/nm/@acme''" and e = "''mjs''" and fs = fs_entry,
          OF src imp owner t noexp resq normq shape e]
    by (simp only: lp ex1 ex2 if_True if_False simp_thms)
qed

text \<open>
  \<open>src/app.tsx\<close> exists and the host resolves the package to \<open>dist/app.mjs\<close>, yet
  the request is declined: without an importer, from an importer inside another target,
  and when the target has an explicit rule for another file.
\<close>

theorem default_entry_redirect_counterexample:
  "existsSync fs_entry ''/nm/@acme/dashboard/src/app.tsx''
   \<and> fst (resolveId fs_entry (mkOptions [dash] OnError) state_empty resolveDash ''@acme/dashboard'' None) = None
   \<and> fst (resolveId fs_entry (mkOptions [ui, dash] OnError) state_empty resolveDash ''@acme/dashboard''
            (Some ''/nm/@acme/ui/src/App.tsx'')) = None
   \<and> fst (resolveId fs_entry (mkOptions [dash_explicit] OnError) state_empty resolveDash ''@acme/dashboard''
            (Some ''/proj/src/main.tsx'')) = None"
  by code_simp

text \<open>
  A query with the line separator \<open>U+2028\<close> in it is not cut, since the dot of the
  regular expression stops there: the id keeps its query, no file of that name exists,
  and the request is declined although \<open>src/app.tsx\<close> exists.
\<close>

lemma query_with_line_separator_kept:
  "stripQuery (normalizePath (''/nm/@acme/dashboard/dist/app.mjs?a'' @ lineSeparator @ ''b''))
     = ''/nm/@acme/dashboard/dist/app.mjs?a'' @ lineSeparator @ ''b''
   \<and> fst (resolveId fs_entry (mkOptions [dash] OnError) state_empty resolveDashSeparator ''@acme/dashboard''
            (Some ''/proj/src/main.tsx'')) = None"
  by code_simp

section \<open>Properties of the start of the plugin\<close>

text \<open>
  Claim C4, at the input where the code departs from it. Two targets, \<open>@acme/dashboard\<close>
  first and \<open>@acme/ui\<close> second, both with a \<open>Button.tsx\<close>, and one flat override
  \<open>Button\<close>. Under \<open>error\<close> the start throws the message that names both targets
  and the key; under \<open>warn\<close> the same names are printed with "Using first match.";
  under \<open>first\<close> nothing is printed. In both running cases the target file index
  holds the file of \<open>@acme/ui\<close>, the target met last.
\<close>

theorem conflict_keeps_last_target:
  "unlock fs_conflict (mkOptions [dash, ui] OnWarn) =
     Inr (Active state_conflict,
          logger_warn (''Override '' @ dq @ ''Button'' @ dq
            @ '' matches files in multiple targets: @acme/dashboard, @acme/ui. Using first match.''))
   \<and> unlock fs_conflict (mkOptions [dash, ui] OnFirst) = Inr (Active state_conflict, [])
   \<and> unlock fs_conflict (mkOptions [dash, ui] OnError) =
     Inl (''[vite-plugin-unlock] Override '' @ dq @ ''Button'' @ dq
          @ '' matches files in multiple targets: @acme/dashboard, @acme/ui. ''
          @ ''Use namespaced overrides (overrides/@scope/pkg/Button.tsx) or set onConflict: ''
          @ dq @ ''warn'' @ dq @ ''.'')
   \<and> map_get (targetFiles state_conflict) ''Button''
       = Some \<lparr>target = ui, filePath = ''/nm/@acme/ui/src/Button.tsx''\<rparr>
   \<and> targets (mkOptions [dash, ui] OnWarn) = [dash, ui]"
  by code_simp

section \<open>Properties of the watcher\<close>




text \<open>
  Claim C2, at the input where the code departs from it. No override exists; then
  \<open>/ov/@acme/ui/Button.tsx\<close> is created, a file of which the host holds module 2,
  imported by module 3. The rebuild stores the new namespaced key and sends a full
  reload, but invalidates only module 1 of the original target file and its importer 4:
  \<open>invalidateForKey\<close> looks the new path up in the flat mapping. With the flat file
  \<open>/ov/Button.tsx\<close> (module 5, imported by 6) the override module and its importer
  are invalidated too.
\<close>

theorem namespaced_change_misses_override_module:
  "invalidated (devServer (rebuild fs_scoped (mkOptions [ui] OnError) session_before)) = [1, 4]
   \<and> sent (devServer (rebuild fs_scoped (mkOptions [ui] OnError) session_before)) = [FullReload]
   \<and> namespacedOverrides (resolver (rebuild fs_scoped (mkOptions [ui] OnError) session_before))
       = [(''@acme/ui'', [(''Button'', ''/ov/@acme/ui/Button.tsx'')])]
   \<and> getModulesByFile graph_overrides ''/ov/@acme/ui/Button.tsx'' = Some [2]
   \<and> importers graph_overrides 2 = [3]
   \<and> invalidated (devServer (rebuild fs_flat_button (mkOptions [ui] OnError) session_before)) = [1, 5, 4, 6]"
  by code_simp

lemma isWarn_info: "filter isWarn (logger_info dbg msg) = []"
  by (simp add: logger_info_def isWarn_def)

lemma isWarn_warn: "filter isWarn (logger_warn msg) = logger_warn msg"
  by (simp add: logger_warn_def isWarn_def)

lemma invalidate_shape:
  "r = (if c then (invalidateModules (invalidateModules srv a) b, logger_info dbg m1)
        else (srv, logger_info dbg m2)) \<Longrightarrow>
   sent (fst r) = sent srv \<and> moduleGraph (fst r) = moduleGraph srv \<and> filter isWarn (snd r) = []"
  by (cases c) (simp_all add: invalidateModules_def isWarn_info)

lemma invalidateForKey_frame:
  "sent (fst (invalidateForKey key isNow oldMap state srv dbg)) = sent srv
   \<and> moduleGraph (fst (invalidateForKey key isNow oldMap state srv dbg)) = moduleGraph srv
   \<and> filter isWarn (snd (invalidateForKey key isNow oldMap state srv dbg)) = []"
  by (rule invalidate_shape) (simp only: invalidateForKey_def Let_def)

lemma diffKeys_frame:
  "frame (diffKeys dbg label oldMap newMap state acc keys) = frame acc"
proof (induction keys arbitrary: acc)
  case Nil
  show ?case by simp
next
  case (Cons key keys)
  obtain srv out ch where acc: "acc = (srv, out, ch)" by (metis prod_cases3)
  obtain srv' out' where inv:
    "invalidateForKey key (map_has newMap key) oldMap state srv dbg = (srv', out')"
    by (metis surj_pair)
  have f: "sent srv' = sent srv" "moduleGraph srv' = moduleGraph srv" "filter isWarn out' = []"
    using invalidateForKey_frame [of key "map_has newMap key" oldMap state srv dbg]
    by (simp_all add: inv)
  let ?acc' = "(srv', out @ logger_info dbg (label @ dq @ key @ dq @ '' ''
              @ diffAction (map_has oldMap key) (map_has newMap key)) @ out', True)"
  have f': "frame ?acc' = frame acc"
    using f by (simp add: frame_def acc isWarn_info)
  show ?case
  proof (cases "map_has oldMap key = map_has newMap key")
    case True
    show ?thesis
    proof (cases "map_get oldMap key = map_get newMap key")
      case True
      with \<open>map_has oldMap key = map_has newMap key\<close> show ?thesis
        using Cons.IH [of "(srv, out, ch)"] by (simp add: acc)
    next
      case False
      then have "diffKeys dbg label oldMap newMap state acc (key # keys) =
          diffKeys dbg label oldMap newMap state ?acc' keys"
        by (simp add: acc Let_def inv)
      then show ?thesis using Cons.IH [of ?acc'] f' by simp
    qed
  next
    case False
    then have "diffKeys dbg label oldMap newMap state acc (key # keys) =
        diffKeys dbg label oldMap newMap state ?acc' keys"
      by (simp add: acc Let_def inv)
    then show ?thesis using Cons.IH [of ?acc'] f' by simp
  qed
qed

lemma diffNamespaces_frame:
  "frame (diffNamespaces dbg oldNs newNs state acc nss) = frame acc"
proof (induction nss arbitrary: acc)
  case Nil
  show ?case by simp
next
  case (Cons ns nss)
  show ?case
    by (simp only: diffNamespaces.simps Let_def Cons.IH diffKeys_frame)
qed

lemma scanOverrideFile_printed:
  "filter isWarn (printed s) = [] \<Longrightarrow> filter isWarn (printed (scanOverrideFile wd opts dir s f)) = []"
  by (simp add: scanOverrideFile_def Let_def isWarn_info)

lemma foldl_scanOverrideFile_printed:
  "filter isWarn (printed s) = [] \<Longrightarrow>
   filter isWarn (printed (foldl (scanOverrideFile wd opts dir) s fl)) = []"
  by (induction fl arbitrary: s) (simp_all add: scanOverrideFile_printed)

lemma foldl_scanOverrideDir_printed:
  "filter isWarn (printed s) = [] \<Longrightarrow>
   filter isWarn (printed (foldl (scanOverrideDir fs opts) s ds)) = []"
  by (induction ds arbitrary: s) (simp_all add: scanOverrideDir_def foldl_scanOverrideFile_printed)

lemma scanOverrides_printed: "filter isWarn (printed (scanOverrides fs opts)) = []"
  unfolding scanOverrides_def by (rule foldl_scanOverrideDir_printed) simp

lemma rebuildDiff_frame:
  "frame (rebuildDiff fs opts ses)
     = (sent (devServer ses), moduleGraph (devServer ses), filter isWarn (consoleOut ses))"
  by (simp add: rebuildDiff_def Let_def diffNamespaces_frame diffKeys_frame)
     (simp add: frame_def scanOverrides_printed)

lemma rebuild_alt:
  "rebuild fs opts ses =
     (let state = (resolver ses)\<lparr>flatOverrides :=
                       filterByTargets (targetFiles (resolver ses)) [] (flat (scanOverrides fs opts)),
                     namespacedOverrides := namespaced (scanOverrides fs opts)\<rparr>;
          d = rebuildDiff fs opts ses
      in if snd (snd d)
         then \<lparr>resolver = state, devServer = send (fst d) FullReload,
               consoleOut = fst (snd d) @ logger_info (debug opts) ''Structural change detected -> full reload''\<rparr>
         else \<lparr>resolver = state, devServer = fst d, consoleOut = fst (snd d)\<rparr>)"
  unfolding rebuild_def rebuildDiff_def Let_def
  by (simp only: case_prod_beta)

lemma rebuild_resolver:
  "resolver (rebuild fs opts ses) =
     (resolver ses)\<lparr>flatOverrides := filterByTargets (targetFiles (resolver ses)) [] (flat (scanOverrides fs opts)),
                     namespacedOverrides := namespaced (scanOverrides fs opts)\<rparr>"
  by (simp add: rebuild_alt Let_def)

lemma rebuild_sent:
  "sent (devServer (rebuild fs opts ses)) = sent (devServer ses)
   \<or> sent (devServer (rebuild fs opts ses)) = sent (devServer ses) @ [FullReload]"
  using rebuildDiff_frame [of fs opts ses]
  by (simp add: rebuild_alt Let_def frame_def send_def)

lemma rebuild_warnings:
  "filter isWarn (consoleOut (rebuild fs opts ses)) = filter isWarn (consoleOut ses)"
  using rebuildDiff_frame [of fs opts ses]
  by (simp add: rebuild_alt Let_def frame_def isWarn_info)

lemma run_Nil: "run disk opts w [] = w"
  by (simp add: run_def)

lemma run_Cons: "run disk opts w (e # es) = run disk opts (step disk opts w e) es"
  by (simp add: run_def)

lemma run_append: "run disk opts w (es @ fs) = run disk opts (run disk opts w es) fs"
  by (simp add: run_def)

lemma patchConfigStructuralLoop_other:
  "\<forall>p\<in>set ps. basename \<noteq> configFile p \<Longrightarrow>
   patchConfigStructuralLoop fs opts basename visited ses ps = (visited @ ps, ses)"
  by (induction ps arbitrary: visited) simp_all

lemma handlePatchConfigStructural_other:
  "\<forall>p\<in>set ps. stripExtension (path_basename file) \<noteq> configFile p \<Longrightarrow>
   handlePatchConfigStructural fs opts file (ps, ses) = (ps, ses)"
  by (simp add: handlePatchConfigStructural_def Let_def patchConfigStructuralLoop_other)

lemma step_structural:
  assumes "structural opts (patches w) e"
  shows "step disk opts w e = w\<lparr>debounceTimer := Some (clock w + DEBOUNCE_MS)\<rparr>"
proof (cases e)
  case (Add f)
  with assms show ?thesis
    by (simp add: structural_def onAddUnlink_def handleStructuralChange_def Let_def
          handlePatchConfigStructural_other list_all_iff)
next
  case (Unlink f)
  with assms show ?thesis
    by (simp add: structural_def onAddUnlink_def handleStructuralChange_def Let_def
          handlePatchConfigStructural_other list_all_iff)
next
  case (Change f)
  with assms show ?thesis by (simp add: structural_def)
next
  case Millisecond
  with assms show ?thesis by (simp add: structural_def)
qed

lemma ticks_idle:
  "debounceTimer w = None \<Longrightarrow>
   run disk opts w (replicate k Millisecond) = w\<lparr>clock := clock w + k\<rparr>"
proof (induction k arbitrary: w)
  case 0
  show ?case by (simp add: run_Nil)
next
  case (Suc k)
  have "step disk opts w Millisecond = w\<lparr>clock := clock w + 1\<rparr>"
    using Suc.prems by (simp add: Let_def)
  then show ?case
    using Suc.IH [of "w\<lparr>clock := clock w + 1\<rparr>"] Suc.prems
    by (simp add: run_Cons)
qed

lemma ticks_pending:
  "debounceTimer w = Some d \<Longrightarrow> clock w + k < d \<Longrightarrow>
   run disk opts w (replicate k Millisecond) = w\<lparr>clock := clock w + k\<rparr>"
proof (induction k arbitrary: w)
  case 0
  show ?case by (simp add: run_Nil)
next
  case (Suc k)
  have "step disk opts w Millisecond = w\<lparr>clock := clock w + 1\<rparr>"
    using Suc.prems by (simp add: Let_def)
  then show ?case
    using Suc.IH [of "w\<lparr>clock := clock w + 1\<rparr>"] Suc.prems
    by (simp add: run_Cons)
qed

lemma ticks_fire:
  "debounceTimer w = Some d \<Longrightarrow> clock w < d \<Longrightarrow> d \<le> clock w + n \<Longrightarrow>
   run disk opts w (replicate n Millisecond)
     = w\<lparr>clock := clock w + n, debounceTimer := None,
          session := rebuild (disk d) opts (session w),
          recomputations := recomputations w + 1\<rparr>"
proof (induction n arbitrary: w)
  case 0
  then show ?case by simp
next
  case (Suc n)
  show ?case
  proof (cases "d \<le> clock w + 1")
    case True
    with Suc.prems have d: "d = clock w + 1" by simp
    let ?w1 = "w\<lparr>clock := clock w + 1, debounceTimer := None,
                  session := rebuild (disk (clock w + 1)) opts (session w),
                  recomputations := recomputations w + 1\<rparr>"
    have "step disk opts w Millisecond = ?w1"
      using Suc.prems d by (simp add: Let_def)
    then show ?thesis
      using ticks_idle [of ?w1 disk opts n] by (simp add: run_Cons d)
  next
    case False
    let ?w1 = "w\<lparr>clock := clock w + 1\<rparr>"
    have "step disk opts w Millisecond = ?w1"
      using Suc.prems False by (simp add: Let_def)
    then show ?thesis
      using Suc.IH [of ?w1] Suc.prems False by (simp add: run_Cons)
  qed
qed

lemma burst_chunk:
  assumes "structural opts (patches w) e" and "gap < DEBOUNCE_MS"
  shows "run disk opts w (e # replicate gap Millisecond)
           = w\<lparr>clock := clock w + gap, debounceTimer := Some (clock w + DEBOUNCE_MS)\<rparr>"
  using assms ticks_pending [of "w\<lparr>debounceTimer := Some (clock w + DEBOUNCE_MS)\<rparr>"
      "clock w + DEBOUNCE_MS" gap disk opts]
  by (simp add: run_Cons step_structural)

lemma burst_run:
  assumes "\<forall>(e, gap)\<in>set burst. structural opts (patches w) e \<and> gap < DEBOUNCE_MS"
  shows "\<exists>t. run disk opts w (burstEvents burst)
               = w\<lparr>clock := clock w + burstDuration burst, debounceTimer := t\<rparr>"
  using assms
proof (induction burst arbitrary: w)
  case Nil
  have "run disk opts w (burstEvents []) = w\<lparr>clock := clock w + burstDuration [], debounceTimer := debounceTimer w\<rparr>"
    by (simp add: burstEvents_def burstDuration_def run_Nil)
  then show ?case by blast
next
  case (Cons x burst)
  obtain e gap where x: "x = (e, gap)" by (cases x)
  let ?w1 = "w\<lparr>clock := clock w + gap, debounceTimer := Some (clock w + DEBOUNCE_MS)\<rparr>"
  have chunk: "run disk opts w (e # replicate gap Millisecond) = ?w1"
    using Cons.prems x by (intro burst_chunk) auto
  have "\<forall>(e, gap)\<in>set burst. structural opts (patches ?w1) e \<and> gap < DEBOUNCE_MS"
    using Cons.prems by simp
  from Cons.IH [OF this] obtain t where
    rest: "run disk opts ?w1 (burstEvents burst)
             = ?w1\<lparr>clock := clock ?w1 + burstDuration burst, debounceTimer := t\<rparr>" by blast
  have "burstEvents (x # burst) = (e # replicate gap Millisecond) @ burstEvents burst"
    by (simp add: burstEvents_def x)
  then have "run disk opts w (burstEvents (x # burst)) = run disk opts ?w1 (burstEvents burst)"
    using chunk by (simp only: run_append)
  also have "\<dots> = w\<lparr>clock := clock w + burstDuration (x # burst), debounceTimer := t\<rparr>"
    using rest by (simp add: burstDuration_def x)
  finally show ?case by blast
qed

text \<open>
  Claim C6, as amended. A burst of structural events (files with an allowed extension
  under an override directory, added or removed, none of them the config file of a
  patch), each followed by fewer than 50 milliseconds, then a last such event and at
  least 50 milliseconds: whatever timeout was pending at the start, the debounced
  callback runs exactly once, and no timeout is left pending. It runs on the disk as it
  is 50 milliseconds after the last event: the session is the rebuild, on that disk, of
  the session of the start, so that the flat mapping is the filtered scan of that disk
  and the namespaced mapping its namespaced scan. At most one full reload is sent.
\<close>

theorem debounce_coalesces:
  assumes burst: "\<forall>(e, gap)\<in>set burst. structural opts (patches w) e \<and> gap < DEBOUNCE_MS"
    and last: "structural opts (patches w) e"
    and n: "DEBOUNCE_MS \<le> n"
  shows "let final = run disk opts w (burstEvents burst @ e # replicate n Millisecond);
             fired = clock w + burstDuration burst + DEBOUNCE_MS
         in recomputations final = recomputations w + 1
          \<and> debounceTimer final = None
          \<and> clock final = clock w + burstDuration burst + n
          \<and> session final = rebuild (disk fired) opts (session w)
          \<and> flatOverrides (resolver (session final))
               = filterByTargets (targetFiles (resolver (session w))) [] (flat (scanOverrides (disk fired) opts))
          \<and> namespacedOverrides (resolver (session final)) = namespaced (scanOverrides (disk fired) opts)
          \<and> targetFiles (resolver (session final)) = targetFiles (resolver (session w))
          \<and> (sent (devServer (session final)) = sent (devServer (session w))
             \<or> sent (devServer (session final)) = sent (devServer (session w)) @ [FullReload])"
proof -
  from burst_run [OF burst] obtain t where
    b: "run disk opts w (burstEvents burst)
          = w\<lparr>clock := clock w + burstDuration burst, debounceTimer := t\<rparr>" by blast
  let ?c = "clock w + burstDuration burst"
  let ?w1 = "w\<lparr>clock := ?c, debounceTimer := t\<rparr>"
  let ?w2 = "w\<lparr>clock := ?c, debounceTimer := Some (?c + DEBOUNCE_MS)\<rparr>"
  have "structural opts (patches ?w1) e" using last by simp
  then have s: "step disk opts ?w1 e = ?w2"
    by (simp add: step_structural)
  have pos: "0 < DEBOUNCE_MS" by (simp add: DEBOUNCE_MS_def)
  have f: "run disk opts ?w2 (replicate n Millisecond)
           = ?w2\<lparr>clock := clock ?w2 + n, debounceTimer := None,
                  session := rebuild (disk (?c + DEBOUNCE_MS)) opts (session ?w2),
                  recomputations := recomputations ?w2 + 1\<rparr>"
    using n pos by (intro ticks_fire) simp_all
  have r: "run disk opts w (burstEvents burst @ e # replicate n Millisecond)
           = ?w2\<lparr>clock := clock ?w2 + n, debounceTimer := None,
                  session := rebuild (disk (?c + DEBOUNCE_MS)) opts (session ?w2),
                  recomputations := recomputations ?w2 + 1\<rparr>"
    by (simp only: run_append run_Cons b s f)
  show ?thesis
    unfolding Let_def r
    using rebuild_sent [of "disk (?c + DEBOUNCE_MS)" opts "session w"]
    by (auto simp: rebuild_resolver)
qed

text \<open>
  The disk holds no override until millisecond 108 and \<open>Button.tsx\<close> from millisecond
  109 on. Events at the milliseconds 0, 10 and 59, then 50 milliseconds: the one
  recomputation reads the disk of millisecond 109 and finds the override.
\<close>

theorem debounce_coalesces_witness:
  "recomputations (run disk_button (mkOptions [ui] OnError) watcher0
       (burstEvents [(Add ''/ov/@acme/ui/Button.tsx'', 10), (Unlink ''/ov/@acme/ui/Button.tsx'', 49)]
        @ Add ''/ov/@acme/ui/Button.tsx'' # replicate 50 Millisecond)) = 1
   \<and> debounceTimer (run disk_button (mkOptions [ui] OnError) watcher0
       (burstEvents [(Add ''/ov/@acme/ui/Button.tsx'', 10), (Unlink ''/ov/@acme/ui/Button.tsx'', 49)]
        @ Add ''/ov/@acme/ui/Button.tsx'' # replicate 50 Millisecond)) = None
   \<and> clock (run disk_button (mkOptions [ui] OnError) watcher0
       (burstEvents [(Add ''/ov/@acme/ui/Button.tsx'', 10), (Unlink ''/ov/@acme/ui/Button.tsx'', 49)]
        @ Add ''/ov/@acme/ui/Button.tsx'' # replicate 50 Millisecond)) = 109
   \<and> session (run disk_button (mkOptions [ui] OnError) watcher0
       (burstEvents [(Add ''/ov/@acme/ui/Button.tsx'', 10), (Unlink ''/ov/@acme/ui/Button.tsx'', 49)]
        @ Add ''/ov/@acme/ui/Button.tsx'' # replicate 50 Millisecond))
       = rebuild fs_scoped (mkOptions [ui] OnError) session_before
   \<and> namespacedOverrides (resolver (session (run disk_button (mkOptions [ui] OnError) watcher0
       (burstEvents [(Add ''/ov/@acme/ui/Button.tsx'', 10), (Unlink ''/ov/@acme/ui/Button.tsx'', 49)]
        @ Add ''/ov/@acme/ui/Button.tsx'' # replicate 50 Millisecond))))
       = [(''@acme/ui'', [(''Button'', ''/ov/@acme/ui/Button.tsx'')])]
   \<and> namespaced (scanOverrides (disk_button 108) (mkOptions [ui] OnError)) = []"
proof -
  let ?opts = "mkOptions [ui] OnError"
  have a: "structural ?opts (patches watcher0) (Add ''/ov/@acme/ui/Button.tsx'')" by code_simp
  have u: "structural ?opts (patches watcher0) (Unlink ''/ov/@acme/ui/Button.tsx'')" by code_simp
  have burst: "\<forall>(e, gap)\<in>set [(Add ''/ov/@acme/ui/Button.tsx'', 10), (Unlink ''/ov/@acme/ui/Button.tsx'', 49)].
      structural ?opts (patches watcher0) e \<and> gap < DEBOUNCE_MS"
    using a u by (simp add: DEBOUNCE_MS_def)
  have n: "DEBOUNCE_MS \<le> 50" by (simp add: DEBOUNCE_MS_def)
  have w: "recomputations watcher0 = 0" "clock watcher0 = 0" "session watcher0 = session_before"
    by (simp_all add: watcher0_def)
  have d: "burstDuration [(Add ''/ov/@acme/ui/Button.tsx'', 10), (Unlink ''/ov/@acme/ui/Button.tsx'', 49)]
             + DEBOUNCE_MS = 109"
    "burstDuration [(Add ''/ov/@acme/ui/Button.tsx'', 10), (Unlink ''/ov/@acme/ui/Button.tsx'', 49)] = 59"
    by (simp_all add: burstDuration_def DEBOUNCE_MS_def)
  have disk: "disk_button 109 = fs_scoped" by (simp add: disk_button_def)
  have scan: "namespaced (scanOverrides fs_scoped ?opts) = [(''@acme/ui'', [(''Button'', ''/ov/@acme/ui/Button.tsx'')])]"
    by code_simp
  have before: "namespaced (scanOverrides (disk_button 108) ?opts) = []"
    by code_simp
  show ?thesis
    using debounce_coalesces [OF burst a n, of disk_button] before
    by (simp add: Let_def w d DEBOUNCE_MS_def disk scan rebuild_resolver)
qed

text \<open>
  With a patch \<open>menu.config\<close>: the config file is created and, one millisecond later,
  removed. The recomputation runs once, but the patch listener has sent a full reload
  at each of the two events.
\<close>

theorem debounce_coalesces_counterexample:
  "sent (devServer (session (run disk_menu (mkOptions [ui] OnError) (watcher0\<lparr>patches := [menuPatch]\<rparr>)
       (Add ''/ov/menu.config.ts'' # Millisecond # Unlink ''/ov/menu.config.ts'' # replicate 50 Millisecond))))
     = [FullReload, FullReload]
   \<and> recomputations (run disk_menu (mkOptions [ui] OnError) (watcher0\<lparr>patches := [menuPatch]\<rparr>)
       (Add ''/ov/menu.config.ts'' # Millisecond # Unlink ''/ov/menu.config.ts'' # replicate 50 Millisecond))
     = 1
   \<and> path_extname ''/ov/menu.config.ts'' \<in> extensionSet (mkOptions [ui] OnError)
   \<and> isOverrideFile (mkOptions [ui] OnError) ''/ov/menu.config.ts''"
  by code_simp

lemma isWarn_all_filter: "list_all isWarn xs \<Longrightarrow> filter isWarn xs = xs"
  by (induction xs) auto

lemma list_all_isWarn_warn: "list_all isWarn (logger_warn msg)"
  by (simp add: logger_warn_def isWarn_def)

lemma scanAllTargetsLoop_printed:
  "filter isWarn (snd acc) = [] \<Longrightarrow> filter isWarn (snd (scanAllTargetsLoop fs opts acc ts)) = []"
proof (induction ts arbitrary: acc)
  case Nil
  then show ?case by simp
next
  case (Cons t ts)
  obtain combined out where acc: "acc = (combined, out)" by (cases acc)
  show ?case
    using Cons.prems by (simp add: acc Let_def Cons.IH isWarn_info)
qed

lemma scanAllTargets_printed: "filter isWarn (snd (scanAllTargets fs opts)) = []"
  by (simp add: scanAllTargets_def scanAllTargetsLoop_printed)

lemma filterFlatOverrides_fst:
  "fst (filterFlatOverrides tf (acc, out) m) = filterByTargets tf acc m"
  by (induction m arbitrary: acc out) auto

lemma filterFlatOverrides_snd:
  "list_all isWarn out \<Longrightarrow> list_all isWarn (snd (filterFlatOverrides tf (acc, out) m))"
  by (induction m arbitrary: acc out) (auto simp: list_all_isWarn_warn)

lemma detectConflictsLoop_warnings:
  "list_all isWarn out \<Longrightarrow> detectConflictsLoop opts ptm out keys = Inr w \<Longrightarrow> list_all isWarn w"
proof (induction keys arbitrary: out)
  case Nil
  then show ?case by simp
next
  case (Cons key keys)
  show ?case
  proof (cases "length (filter (\<lambda>(t, files). map_has files key) ptm) > 1")
    case False
    then show ?thesis using Cons by (simp add: Let_def)
  next
    case True
    show ?thesis
    proof (cases "onConflict opts")
      case OnError
      then show ?thesis using Cons.prems True by (simp add: Let_def)
    next
      case OnWarn
      then show ?thesis
        using Cons.prems True
          Cons.IH [of "out @ logger_warn (''Override '' @ dq @ key @ dq
              @ '' matches files in multiple targets: ''
              @ join '', '' (map (\<lambda>(t, files). package t) (filter (\<lambda>(t, files). map_has files key) ptm))
              @ ''. Using first match.'')"]
        by (simp add: Let_def list_all_isWarn_warn)
    next
      case OnFirst
      then show ?thesis using Cons True by (simp add: Let_def)
    qed
  qed
qed

lemma detectConflicts_warnings:
  assumes "detectConflicts fs fo opts = Inr w" shows "list_all isWarn w"
  using detectConflictsLoop_warnings [of "[]" opts "map (\<lambda>t. (t, scanTarget fs t opts)) (targets opts)"
      "map_keys fo" w] assms
  by (simp add: detectConflicts_def)

lemma logActiveOverrides_info: "filter isWarn (logActiveOverrides dbg fo nsm) = []"
proof -
  have infos: "filter isWarn (concat (map (\<lambda>(ns, m). logger_info dbg (f ns m)) xs)) = []" for f xs
    by (induction xs) (auto simp: isWarn_info)
  show ?thesis
    by (simp add: logActiveOverrides_def Let_def isWarn_info infos)
qed

lemma unlock_active:
  assumes "unlock fs opts = Inr (Active st, out)"
  shows "namespacedOverrides st = namespaced (scanOverrides fs opts)
       \<and> flatOverrides st = filterByTargets (fst (scanAllTargets fs opts)) [] (flat (scanOverrides fs opts))
       \<and> targetFiles st = fst (scanAllTargets fs opts)
       \<and> filter isWarn out =
           snd (filterFlatOverrides (fst (scanAllTargets fs opts)) ([], []) (flat (scanOverrides fs opts)))
           @ conflictWarnings fs opts (flatOverrides st)"
proof -
  obtain tf out1 where sa: "scanAllTargets fs opts = (tf, out1)" by (cases "scanAllTargets fs opts")
  obtain fo out2 where ff: "filterFlatOverrides tf ([], []) (flat (scanOverrides fs opts)) = (fo, out2)"
    by (cases "filterFlatOverrides tf ([], []) (flat (scanOverrides fs opts))")
  have fo: "fo = filterByTargets tf [] (flat (scanOverrides fs opts))"
    using filterFlatOverrides_fst [of tf "[]" "[]" "flat (scanOverrides fs opts)"] by (simp add: ff)
  have w1: "filter isWarn out1 = []" using scanAllTargets_printed [of fs opts] by (simp add: sa)
  have w2: "filter isWarn out2 = out2"
    using filterFlatOverrides_snd [of "[]" tf "[]" "flat (scanOverrides fs opts)"]
    by (simp add: ff isWarn_all_filter)
  define conflicts where "conflicts =
     (if length (targets opts) > 1 \<and> length fo > 0 then detectConflicts fs fo opts else Inr [])"
  define st' where "st' = \<lparr>flatOverrides = fo, namespacedOverrides = namespaced (scanOverrides fs opts),
                       targetFiles = tf\<rparr>"
  define out4 where "out4 = logActiveOverrides (debug opts) fo (namespaced (scanOverrides fs opts))"
  have nonempty: "length (targets opts) \<noteq> 0"
    using assms by (auto simp: unlock_def)
  have u: "unlock fs opts =
     (case conflicts of
        Inl err \<Rightarrow> Inl err
      | Inr out3 \<Rightarrow> Inr (Active st', out1 @ printed (scanOverrides fs opts) @ out2 @ out3 @ out4))"
    using nonempty unfolding unlock_def conflicts_def st'_def out4_def
    by (simp only: sa ff Let_def prod.case if_False)
  from assms u obtain out3 where c: "conflicts = Inr out3" and st: "st = st'"
    and out: "out = out1 @ printed (scanOverrides fs opts) @ out2 @ out3 @ out4"
    by (cases conflicts) auto
  have w3: "filter isWarn out3 = out3"
    using c detectConflicts_warnings [of fs fo opts out3]
    by (auto simp: conflicts_def isWarn_all_filter split: if_splits)
  have cw: "conflictWarnings fs opts fo = out3"
    using c by (auto simp: conflicts_def conflictWarnings_def split: if_splits)
  have w4: "filter isWarn out4 = []"
    by (simp add: out4_def logActiveOverrides_info)
  have r: "namespacedOverrides st = namespaced (scanOverrides fs opts) \<and> flatOverrides st = fo
       \<and> targetFiles st = tf \<and> filter isWarn out = out2 @ conflictWarnings fs opts fo"
    by (simp add: out w1 w2 w3 w4 cw st st'_def scanOverrides_printed)
  show ?thesis
    using r fo by (simp add: sa ff)
qed

lemma set_map_set: "set (map_set m k v) \<subseteq> insert (k, v) (set m)"
  by (induction m) (auto split: if_splits)

lemma filterByTargets_all:
  "list_all (\<lambda>(k, v). map_has tf k) acc \<Longrightarrow>
   list_all (\<lambda>(k, v). map_has tf k) (filterByTargets tf acc m)"
proof (induction m arbitrary: acc)
  case Nil
  then show ?case by simp
next
  case (Cons x m)
  obtain key p where x: "x = (key, p)" by (cases x)
  have "list_all (\<lambda>(k, v). map_has tf k) (map_set acc key p)" if "map_has tf key"
    using that Cons.prems set_map_set [of acc key p] unfolding list_all_iff by blast
  then show ?case
    using Cons.prems by (simp add: x Cons.IH)
qed

lemma filterByTargets_keys:
  assumes "map_has (filterByTargets tf [] m) k" shows "map_has tf k"
proof -
  from assms obtain v where "map_of (filterByTargets tf [] m) k = Some v"
    by (auto simp: map_has_def)
  then have "(k, v) \<in> set (filterByTargets tf [] m)" by (rule map_of_SomeD)
  moreover have "list_all (\<lambda>(k, v). map_has tf k) (filterByTargets tf [] m)"
    by (rule filterByTargets_all) simp
  ultimately show ?thesis unfolding list_all_iff by blast
qed

lemma map_get_in_set: "map_get m k = Some v \<Longrightarrow> (k, v) \<in> set m"
  by (simp add: map_get_def map_of_SomeD)

lemma keysValid_map_set:
  assumes "list_all (\<lambda>(k, p). k \<noteq> [] \<and> k \<noteq> ''index'') m" and "k \<noteq> []" and "k \<noteq> ''index''"
  shows "list_all (\<lambda>(k, p). k \<noteq> [] \<and> k \<noteq> ''index'') (map_set m k f)"
  using assms set_map_set [of m k f] by (auto simp: list_all_iff)

lemma nsKeysValid_inner:
  assumes "nsKeysValid nsm"
  shows "list_all (\<lambda>(k, p). k \<noteq> [] \<and> k \<noteq> ''index'') (case map_get nsm ns of None \<Rightarrow> [] | Some m \<Rightarrow> m)"
proof (cases "map_get nsm ns")
  case None
  then show ?thesis by simp
next
  case (Some m)
  then have "(ns, m) \<in> set nsm" by (rule map_get_in_set)
  with assms have "list_all (\<lambda>(k, p). k \<noteq> [] \<and> k \<noteq> ''index'') m"
    by (auto simp: nsKeysValid_def list_all_iff)
  with Some show ?thesis by simp
qed

lemma nsKeysValid_update:
  assumes "nsKeysValid nsm" and "k \<noteq> []" and "k \<noteq> ''index''"
  shows "nsKeysValid (map_set nsm ns (map_set (case map_get nsm ns of None \<Rightarrow> [] | Some m \<Rightarrow> m) k f))"
proof -
  let ?m = "map_set (case map_get nsm ns of None \<Rightarrow> [] | Some m \<Rightarrow> m) k f"
  have inner: "list_all (\<lambda>(k, p). k \<noteq> [] \<and> k \<noteq> ''index'') ?m"
    using keysValid_map_set [OF nsKeysValid_inner [OF assms(1)] assms(2,3)] .
  have "set (map_set nsm ns ?m) \<subseteq> insert (ns, ?m) (set nsm)" by (rule set_map_set)
  then show ?thesis
    using assms(1) inner unfolding nsKeysValid_def list_all_iff by blast
qed

lemma scanOverrideFile_nsKeysValid:
  assumes "nsKeysValid (namespaced s)"
  shows "nsKeysValid (namespaced (scanOverrideFile wd opts dir s f))"
  using assms
  by (simp add: scanOverrideFile_def Let_def truthy_def nsKeysValid_update split: option.splits)

lemma scanOverrides_nsKeysValid: "nsKeysValid (namespaced (scanOverrides fs opts))"
proof -
  have files: "nsKeysValid (namespaced s) \<Longrightarrow>
      nsKeysValid (namespaced (foldl (scanOverrideFile wd opts dir) s fl))" for wd dir s fl
    by (induction fl arbitrary: s) (simp_all add: scanOverrideFile_nsKeysValid)
  have dirs: "nsKeysValid (namespaced s) \<Longrightarrow>
      nsKeysValid (namespaced (foldl (scanOverrideDir fs opts) s ds))" for s ds
    by (induction ds arbitrary: s) (simp_all add: scanOverrideDir_def files)
  show ?thesis
    unfolding scanOverrides_def by (rule dirs) (simp add: nsKeysValid_def)
qed

lemma nsKeysValid_lookup:
  "nsKeysValid nsm \<Longrightarrow> map_get nsm ns = Some m \<Longrightarrow> map_get m k = Some p \<Longrightarrow> k \<noteq> [] \<and> k \<noteq> ''index''"
  by (auto simp: nsKeysValid_def list_all_iff dest!: map_get_in_set)

text \<open>
  Claim C10, as amended. At the start and at every rebuild the namespaced mapping of
  the resolver state is the one the scan produced, unfiltered, while the flat mapping
  is the scan's flat mapping filtered by the target file index; the warnings of the
  start are those of the flat filter and of the conflict detection on the flat keys,
  and a rebuild prints no warning. A request with a non-virtual specifier, from a
  non-virtual importer owned by the target \<open>t\<close>, whose stripped basename is a key of the
  scanned namespaced mapping of \<open>t\<close>, gets the namespaced file, whether or not a target
  file has that key.
\<close>

theorem namespaced_overrides_unfiltered:
  "(unlock fs opts = Inr (Active st, out) \<longrightarrow>
      namespacedOverrides st = namespaced (scanOverrides fs opts)
      \<and> flatOverrides st = filterByTargets (fst (scanAllTargets fs opts)) [] (flat (scanOverrides fs opts))
      \<and> filter isWarn out =
           snd (filterFlatOverrides (fst (scanAllTargets fs opts)) ([], []) (flat (scanOverrides fs opts)))
           @ conflictWarnings fs opts (flatOverrides st))
   \<and> namespacedOverrides (resolver (rebuild fs opts ses)) = namespaced (scanOverrides fs opts)
   \<and> flatOverrides (resolver (rebuild fs opts ses))
       = filterByTargets (targetFiles (resolver ses)) [] (flat (scanOverrides fs opts))
   \<and> filter isWarn (consoleOut (rebuild fs opts ses)) = filter isWarn (consoleOut ses)
   \<and> (\<not> startsWith source NUL \<and> importer \<noteq> [] \<and> \<not> startsWith importer NUL
        \<and> findImporterTarget importer opts = Some t
        \<and> namespacedOverrides state = namespaced (scanOverrides fs opts)
        \<and> map_get (namespacedOverrides state) (package t) = Some m
        \<and> map_get m (stripExtension (path_basename source)) = Some p
      \<longrightarrow> fst (resolveId fs opts state resolve source (Some importer)) = Some p)"
proof -
  have start: "unlock fs opts = Inr (Active st, out) \<longrightarrow>
      namespacedOverrides st = namespaced (scanOverrides fs opts)
      \<and> flatOverrides st = filterByTargets (fst (scanAllTargets fs opts)) [] (flat (scanOverrides fs opts))
      \<and> filter isWarn out =
           snd (filterFlatOverrides (fst (scanAllTargets fs opts)) ([], []) (flat (scanOverrides fs opts)))
           @ conflictWarnings fs opts (flatOverrides st)"
    using unlock_active [of fs opts st out] by blast
  have res: "fst (resolveId fs opts state resolve source (Some importer)) = Some p"
    if a: "\<not> startsWith source NUL" "importer \<noteq> []" "\<not> startsWith importer NUL"
      "findImporterTarget importer opts = Some t"
      "namespacedOverrides state = namespaced (scanOverrides fs opts)"
      "map_get (namespacedOverrides state) (package t) = Some m"
      "map_get m (stripExtension (path_basename source)) = Some p"
  proof -
    have "nsKeysValid (namespacedOverrides state)"
      using a(5) scanOverrides_nsKeysValid [of fs opts] by simp
    from nsKeysValid_lookup [OF this a(6) a(7)]
    show ?thesis
      using a by (simp add: resolveId_def Let_def map_has_def map_get_def)
  qed
  have res': "\<not> startsWith source NUL \<and> importer \<noteq> [] \<and> \<not> startsWith importer NUL
        \<and> findImporterTarget importer opts = Some t
        \<and> namespacedOverrides state = namespaced (scanOverrides fs opts)
        \<and> map_get (namespacedOverrides state) (package t) = Some m
        \<and> map_get m (stripExtension (path_basename source)) = Some p
      \<longrightarrow> fst (resolveId fs opts state resolve source (Some importer)) = Some p"
    using res by blast
  have reb: "namespacedOverrides (resolver (rebuild fs opts ses)) = namespaced (scanOverrides fs opts)"
    "flatOverrides (resolver (rebuild fs opts ses))
       = filterByTargets (targetFiles (resolver ses)) [] (flat (scanOverrides fs opts))"
    "filter isWarn (consoleOut (rebuild fs opts ses)) = filter isWarn (consoleOut ses)"
    by (simp_all add: rebuild_resolver rebuild_warnings)
  show ?thesis
    using start reb res' by blast
qed

theorem namespaced_overrides_unfiltered_witness:
  "unlock fs_special (mkOptions [ui] OnError) = Inr (Active state_special, [])
   \<and> namespacedOverrides state_special = namespaced (scanOverrides fs_special (mkOptions [ui] OnError))
   \<and> \<not> map_has (targetFiles state_special) ''Special''
   \<and> fst (resolveId fs_special (mkOptions [ui] OnError) state_special noResolve ''./Special''
            (Some ''/nm/@acme/ui/src/App.tsx'')) = Some ''/ov/@acme/ui/Special.tsx''"
proof -
  let ?opts = "mkOptions [ui] OnError"
  have u: "unlock fs_special ?opts = Inr (Active state_special, [])" by code_simp
  have tf: "\<not> map_has (targetFiles state_special) ''Special''" by code_simp
  have 1: "\<not> startsWith ''./Special'' NUL" by code_simp
  have 2: "''/nm/@acme/ui/src/App.tsx'' \<noteq> []" by simp
  have 3: "\<not> startsWith ''/nm/@acme/ui/src/App.tsx'' NUL" by code_simp
  have 4: "findImporterTarget ''/nm/@acme/ui/src/App.tsx'' ?opts = Some ui" by code_simp
  have 6: "map_get (namespacedOverrides state_special) (package ui)
             = Some [(''Special'', ''/ov/@acme/ui/Special.tsx'')]" by code_simp
  have 7: "map_get [(''Special'', ''/ov/@acme/ui/Special.tsx'')] (stripExtension (path_basename ''./Special''))
             = Some ''/ov/@acme/ui/Special.tsx''" by code_simp
  from namespaced_overrides_unfiltered [of fs_special ?opts state_special "[]" session_before
      "''./Special''" "''/nm/@acme/ui/src/App.tsx''" ui state_special
      "[(''Special'', ''/ov/@acme/ui/Special.tsx'')]" "''/ov/@acme/ui/Special.tsx''" noResolve]
  have ns: "namespacedOverrides state_special = namespaced (scanOverrides fs_special ?opts)"
    and imp: "\<not> startsWith ''./Special'' NUL \<and> ''/nm/@acme/ui/src/App.tsx'' \<noteq> []
        \<and> \<not> startsWith ''/nm/@acme/ui/src/App.tsx'' NUL
        \<and> findImporterTarget ''/nm/@acme/ui/src/App.tsx'' ?opts = Some ui
        \<and> namespacedOverrides state_special = namespaced (scanOverrides fs_special ?opts)
        \<and> map_get (namespacedOverrides state_special) (package ui) = Some [(''Special'', ''/ov/@acme/ui/Special.tsx'')]
        \<and> map_get [(''Special'', ''/ov/@acme/ui/Special.tsx'')] (stripExtension (path_basename ''./Special''))
            = Some ''/ov/@acme/ui/Special.tsx''
      \<longrightarrow> fst (resolveId fs_special ?opts state_special noResolve ''./Special''
                 (Some ''/nm/@acme/ui/src/App.tsx'')) = Some ''/ov/@acme/ui/Special.tsx''"
    using u by blast+
  from imp 1 2 3 4 ns 6 7
  have "fst (resolveId fs_special ?opts state_special noResolve ''./Special''
                 (Some ''/nm/@acme/ui/src/App.tsx'')) = Some ''/ov/@acme/ui/Special.tsx''"
    by blast
  with u ns tf show ?thesis by blast
qed

text \<open>
  The namespaced override \<open>Special\<close> matches no target file and is active without a
  warning, but a virtual specifier with that key is declined.
\<close>

theorem namespaced_overrides_unfiltered_counterexample:
  "unlock fs_special (mkOptions [ui] OnError) = Inr (Active state_special, [])
   \<and> stripExtension (path_basename (NUL @ ''virtual/Special'')) = ''Special''
   \<and> findImporterTarget ''/nm/@acme/ui/src/App.tsx'' (mkOptions [ui] OnError) = Some ui
   \<and> fst (resolveId fs_special (mkOptions [ui] OnError) state_special noResolve (NUL @ ''virtual/Special'')
            (Some ''/nm/@acme/ui/src/App.tsx'')) = None"
  by code_simp

section \<open>Further properties\<close>

lemma invalidateAncestors_closed:
  "set seen \<union> set queue \<subseteq> set (invalidateAncestors g seen queue)
   \<and> (\<forall>x\<in>set (invalidateAncestors g seen queue).
         x \<in> set seen \<or> set (importers g x) \<subseteq> set (invalidateAncestors g seen queue))"
proof (induction g seen queue rule: invalidateAncestors.induct)
  case (1 g seen)
  show ?case by simp
next
  case (2 g seen m queue)
  show ?case
  proof (cases "m \<in> set seen")
    case True
    with 2 show ?thesis by auto
  next
    case False
    with 2 have ih: "set (seen @ [m]) \<union> set (queue @ importers g m)
          \<subseteq> set (invalidateAncestors g (seen @ [m]) (queue @ importers g m))"
      and cl: "\<forall>x\<in>set (invalidateAncestors g (seen @ [m]) (queue @ importers g m)).
         x \<in> set (seen @ [m]) \<or> set (importers g x)
            \<subseteq> set (invalidateAncestors g (seen @ [m]) (queue @ importers g m))"
      by blast+
    have r: "invalidateAncestors g seen (m # queue)
               = invalidateAncestors g (seen @ [m]) (queue @ importers g m)"
      using False by simp
    show ?thesis
      unfolding r using ih cl by auto
  qed
qed

lemma invalidateAncestors_complete:
  assumes "importsTransitively g r y" and "r \<in> set roots"
  shows "y \<in> set (invalidateAncestors g [] (concat (map (importers g) roots)))"
  using assms
proof (induction rule: importsTransitively.induct)
  case (direct y g x)
  then have "y \<in> set (concat (map (importers g) roots))" by auto
  then show ?case
    using invalidateAncestors_closed [of "[]" "concat (map (importers g) roots)" g] by auto
next
  case (step g x y z)
  then have "y \<in> set (invalidateAncestors g [] (concat (map (importers g) roots)))" by simp
  then show ?case
    using step.hyps(2) invalidateAncestors_closed [of "[]" "concat (map (importers g) roots)" g]
    by auto
qed

lemma set_addAll_set: "set (set_addAll xs ys) = set xs \<union> set ys"
  unfolding set_addAll_def
  by (induction ys arbitrary: xs) (auto simp: set_add_def)

text \<open>
  \<open>invalidateForKey\<close> invalidates every module of the target file of the key, every
  module of the override file it looks up, and every module that imports one of them,
  directly or through other modules.
\<close>

theorem invalidateForKey_complete:
  assumes "isRoot key isNowOverride oldOverrides state (moduleGraph srv) r"
    and "y = r \<or> importsTransitively (moduleGraph srv) r y"
  shows "y \<in> set (invalidated (fst (invalidateForKey key isNowOverride oldOverrides state srv dbg)))"
proof -
  let ?g = "moduleGraph srv"
  define roots0 where "roots0 =
     (case map_get (targetFiles state) key of
        None \<Rightarrow> []
      | Some targetInfo \<Rightarrow>
          (case getModulesByFile ?g (normalizePath (filePath targetInfo)) of
             None \<Rightarrow> [] | Some mods \<Rightarrow> set_addAll [] mods))"
  define roots where "roots =
     (case (if isNowOverride then map_get (flatOverrides state) key else map_get oldOverrides key) of
        None \<Rightarrow> roots0
      | Some p \<Rightarrow>
          if p = [] then roots0
          else (case getModulesByFile ?g (normalizePath p) of
                  None \<Rightarrow> roots0 | Some mods \<Rightarrow> set_addAll roots0 mods))"
  have r0: "set roots0 \<subseteq> set roots"
    by (auto simp: roots_def set_addAll_set split: option.splits)
  have r: "r \<in> set roots"
    using assms(1)
  proof (unfold isRoot_def, elim disjE exE conjE)
    fix targetInfo mods
    assume "map_get (targetFiles state) key = Some targetInfo"
      "getModulesByFile ?g (normalizePath (filePath targetInfo)) = Some mods" "r \<in> set mods"
    then have "r \<in> set roots0" by (simp add: roots0_def set_addAll_set)
    with r0 show ?thesis by blast
  next
    fix p mods
    assume "lookedUpOverride key isNowOverride oldOverrides state = Some p" "p \<noteq> []"
      "getModulesByFile ?g (normalizePath p) = Some mods" "r \<in> set mods"
    then show ?thesis
      by (simp add: roots_def lookedUpOverride_def set_addAll_set)
  qed
  then have pos: "length roots > 0" by (cases roots) auto
  have inv: "invalidateForKey key isNowOverride oldOverrides state srv dbg =
      (invalidateModules (invalidateModules srv roots)
         (invalidateAncestors ?g [] (concat (map (importers ?g) roots))),
       logger_info dbg (''Invalidated '' @ dq @ key @ dq @ '' + ''
          @ show_nat (length (invalidateAncestors ?g [] (concat (map (importers ?g) roots))))
          @ '' ancestor modules''))"
    unfolding invalidateForKey_def Let_def roots_def [symmetric, unfolded roots0_def [symmetric]]
      roots0_def [symmetric]
    using pos by (simp only: if_True)
  have "y \<in> set roots \<or> y \<in> set (invalidateAncestors ?g [] (concat (map (importers ?g) roots)))"
    using assms(2) r invalidateAncestors_complete [of ?g r y roots] by blast
  then show ?thesis
    by (auto simp: inv invalidateModules_def)
qed

theorem invalidateForKey_complete_witness:
  "6 \<in> set (invalidated (fst (invalidateForKey ''Button'' True [] state_flat server_overrides False)))
   \<and> 5 \<in> set (invalidated (fst (invalidateForKey ''Button'' True [] state_flat server_overrides False)))"
proof -
  have g: "moduleGraph server_overrides = graph_overrides" by (simp add: server_overrides_def)
  have p: "lookedUpOverride ''Button'' True [] state_flat = Some ''/ov/Button.tsx''" by code_simp
  have m: "getModulesByFile graph_overrides (normalizePath ''/ov/Button.tsx'') = Some [5]" by code_simp
  have root: "isRoot ''Button'' True [] state_flat (moduleGraph server_overrides) 5"
    unfolding isRoot_def g using p m by auto
  have "6 \<in> set (importers graph_overrides 5)" by code_simp
  then have t: "importsTransitively (moduleGraph server_overrides) 5 6"
    unfolding g by (rule importsTransitively.direct)
  show ?thesis
    using invalidateForKey_complete [OF root, of 6 False] invalidateForKey_complete [OF root, of 5 False] t
    by simp
qed

lemma patchConfigStructuralLoop_resolver:
  "resolver (snd (patchConfigStructuralLoop fs opts basename visited ses ps)) = resolver ses"
proof (induction ps arbitrary: visited ses)
  case Nil
  show ?case by simp
next
  case (Cons patch ps)
  show ?case
  proof (cases "basename \<noteq> configFile patch
                \<or> findConfigFile fs (configFile patch) (overrideDirs opts) = configPath patch")
    case True
    then show ?thesis using Cons.IH by (auto simp: Let_def)
  next
    case False
    obtain srv out where i: "invalidatePatchTarget
        (patch\<lparr>configPath := findConfigFile fs (configFile patch) (overrideDirs opts)\<rparr>)
        (devServer ses) (debug opts) = (srv, out)"
      by (metis surj_pair)
    from False have b: "configFile patch = basename"
      and n: "findConfigFile fs basename (overrideDirs opts) \<noteq> configPath patch"
      by auto
    show ?thesis
      using n i by (simp add: Let_def b Cons.IH)
  qed
qed

lemma handlePatchConfigStructural_resolver:
  "resolver (snd (handlePatchConfigStructural fs opts file (ps, ses))) = resolver ses"
  by (simp add: handlePatchConfigStructural_def Let_def patchConfigStructuralLoop_resolver)

lemma handlePatchConfigContentEdit_resolver:
  "resolver (handlePatchConfigContentEdit opts file ses ps) = resolver ses"
proof (induction ps)
  case Nil
  show ?case by simp
next
  case (Cons patch ps)
  obtain srv out where i: "invalidatePatchTarget patch (devServer ses) (debug opts) = (srv, out)"
    by (metis surj_pair)
  show ?case
    using Cons.IH by (simp add: i)
qed

lemma contentChange_resolver: "resolver (contentChange opts ses file) = resolver ses"
  by (simp add: contentChange_def Let_def split: option.splits list.splits)

lemma onAddUnlink_resolver:
  "resolver (session (onAddUnlink disk opts f w)) = resolver (session w)"
proof -
  have "session (handleStructuralChange opts f w) = session w"
    by (simp add: handleStructuralChange_def)
  then show ?thesis
    unfolding onAddUnlink_def Let_def case_prod_beta
    by (simp add: handlePatchConfigStructural_resolver)
qed

lemma step_resolver:
  "resolver (session (step disk opts w e)) = resolver (session w)
   \<or> (\<exists>fs. resolver (session (step disk opts w e)) = resolver (rebuild fs opts (session w)))"
proof (cases e)
  case (Add f)
  then show ?thesis by (simp add: onAddUnlink_resolver)
next
  case (Unlink f)
  then show ?thesis by (simp add: onAddUnlink_resolver)
next
  case (Change f)
  then show ?thesis
    by (simp add: onChange_def handlePatchConfigContentEdit_resolver contentChange_resolver)
next
  case Millisecond
  then show ?thesis
    by (auto simp: Let_def split: option.splits)
qed

lemma fromOneScan_rebuild:
  "fromOneScan opts (resolver (rebuild fs opts ses))"
  unfolding fromOneScan_def rebuild_resolver
  by (rule exI [of _ fs]) simp

lemma step_fromOneScan:
  assumes "fromOneScan opts (resolver (session w))"
  shows "fromOneScan opts (resolver (session (step disk opts w e)))"
  using step_resolver [of disk opts w e] assms fromOneScan_rebuild by auto

text \<open>
  Whatever happens to the watcher of a started plugin, the two mappings of its resolver
  state come from one scan.
\<close>

theorem mappings_from_one_scan:
  assumes "unlock fs opts = Inr (Active st, out)" and "resolver (session w) = st"
  shows "fromOneScan opts (resolver (session (run disk opts w events)))"
proof -
  have init: "fromOneScan opts (resolver (session w))"
    unfolding fromOneScan_def assms(2)
    using unlock_active [OF assms(1)] by (intro exI [of _ fs]) simp
  have "fromOneScan opts (resolver (session w')) \<Longrightarrow>
        fromOneScan opts (resolver (session (foldl (step disk opts) w' events)))" for w'
    by (induction events arbitrary: w') (simp_all add: step_fromOneScan)
  with init show ?thesis by (simp add: run_def)
qed

theorem mappings_from_one_scan_witness:
  "fromOneScan (mkOptions [ui] OnError)
     (resolver (session (run (\<lambda>t. fs_scoped) (mkOptions [ui] OnError)
        \<lparr>session = \<lparr>resolver = state_special, devServer = server_overrides, consoleOut = []\<rparr>,
          patches = [], clock = 0, debounceTimer = None, recomputations = 0\<rparr>
        [Add ''/ov/@acme/ui/Button.tsx'', Millisecond])))"
proof -
  have u: "unlock fs_special (mkOptions [ui] OnError) = Inr (Active state_special, [])" by code_simp
  show ?thesis
    by (rule mappings_from_one_scan [OF u]) simp
qed

lemma perTarget_filter:
  "filter (\<lambda>(t, files). map_has files key) (map (\<lambda>t. (t, scanTarget fs t opts)) ts)
     = map (\<lambda>t. (t, scanTarget fs t opts)) (filter (\<lambda>t. map_has (scanTarget fs t opts) key) ts)"
  by (induction ts) auto

lemma perTarget_names:
  "map (\<lambda>(t, files). package t) (map (\<lambda>t. (t, scanTarget fs t opts)) ts) = map package ts"
  by (induction ts) auto

lemma detectConflictsLoop_step:
  "detectConflictsLoop opts (map (\<lambda>t. (t, scanTarget fs t opts)) (targets opts)) out (key # keys) =
     (if conflicting fs opts key then
        (if onConflict opts = OnError then
           Inl (''['' @ PLUGIN_NAME @ ''] Override '' @ dq @ key @ dq
                @ '' matches files in multiple targets: '' @ conflictNames fs opts key @ ''. ''
                @ ''Use namespaced overrides (overrides/@scope/pkg/'' @ key
                @ ''.tsx) or set onConflict: '' @ dq @ ''warn'' @ dq @ ''.'')
         else if onConflict opts = OnWarn then
           detectConflictsLoop opts (map (\<lambda>t. (t, scanTarget fs t opts)) (targets opts))
             (out @ logger_warn (''Override '' @ dq @ key @ dq
                @ '' matches files in multiple targets: '' @ conflictNames fs opts key
                @ ''. Using first match.''))
             keys
         else detectConflictsLoop opts (map (\<lambda>t. (t, scanTarget fs t opts)) (targets opts)) out keys)
      else detectConflictsLoop opts (map (\<lambda>t. (t, scanTarget fs t opts)) (targets opts)) out keys)"
proof -
  have len: "(length (filter (\<lambda>(t, files). map_has files key)
                 (map (\<lambda>t. (t, scanTarget fs t opts)) (targets opts))) > 1)
             = conflicting fs opts key"
    by (simp only: perTarget_filter conflicting_def matchingTargets_def length_map)
  have names: "join '', '' (map (\<lambda>(t, files). package t)
                 (filter (\<lambda>(t, files). map_has files key)
                    (map (\<lambda>t. (t, scanTarget fs t opts)) (targets opts))))
               = conflictNames fs opts key"
    by (simp only: perTarget_filter perTarget_names conflictNames_def matchingTargets_def)
  show ?thesis
    by (simp only: detectConflictsLoop.simps Let_def len names)
qed

lemma conflictPolicy_Cons:
  "conflictPolicy fs ((key, v) # m) opts =
     (case onConflict opts of
        OnError \<Rightarrow>
          (if conflicting fs opts key then
             Inl (''['' @ PLUGIN_NAME @ ''] Override '' @ dq @ key @ dq
                  @ '' matches files in multiple targets: '' @ conflictNames fs opts key @ ''. ''
                  @ ''Use namespaced overrides (overrides/@scope/pkg/'' @ key
                  @ ''.tsx) or set onConflict: '' @ dq @ ''warn'' @ dq @ ''.'')
           else conflictPolicy fs m opts)
      | OnWarn \<Rightarrow>
          (case conflictPolicy fs m opts of
             Inl err \<Rightarrow> Inl err
           | Inr w \<Rightarrow>
               Inr ((if conflicting fs opts key
                     then logger_warn (''Override '' @ dq @ key @ dq
                            @ '' matches files in multiple targets: '' @ conflictNames fs opts key
                            @ ''. Using first match.'')
                     else []) @ w))
      | OnFirst \<Rightarrow> Inr [])"
  by (cases "onConflict opts") (simp_all add: conflictPolicy_def map_keys_def)

lemma conflictPolicy_Nil: "conflictPolicy fs [] opts = Inr []"
  by (cases "onConflict opts") (simp_all add: conflictPolicy_def map_keys_def)

lemma conflictPolicy_warn_Inr:
  "onConflict opts = OnWarn \<Longrightarrow> \<exists>w. conflictPolicy fs m opts = Inr w"
  by (simp add: conflictPolicy_def)

lemma detectConflictsLoop_policy:
  "detectConflictsLoop opts (map (\<lambda>t. (t, scanTarget fs t opts)) (targets opts)) out keys =
     (case conflictPolicy fs (map (\<lambda>k. (k, v)) keys) opts of
        Inl err \<Rightarrow> Inl err
      | Inr w \<Rightarrow> Inr (out @ w))"
proof (induction keys arbitrary: out)
  case Nil
  show ?case by (simp add: conflictPolicy_Nil)
next
  case (Cons key keys)
  let ?rest = "conflictPolicy fs (map (\<lambda>k. (k, v)) keys) opts"
  show ?case
  proof (cases "onConflict opts")
    case OnError
    then show ?thesis
      by (simp add: detectConflictsLoop_step conflictPolicy_Cons Cons.IH del: detectConflictsLoop.simps)
  next
    case OnWarn
    then obtain w where w: "?rest = Inr w" using conflictPolicy_warn_Inr by blast
    with OnWarn show ?thesis
      by (simp add: detectConflictsLoop_step conflictPolicy_Cons Cons.IH del: detectConflictsLoop.simps)
  next
    case OnFirst
    then have "?rest = Inr []" by (simp add: conflictPolicy_def)
    with OnFirst show ?thesis
      by (simp add: detectConflictsLoop_step conflictPolicy_Cons Cons.IH del: detectConflictsLoop.simps)
  qed
qed

lemma conflictPolicy_keys:
  assumes "map_keys m = map_keys m'"
  shows "conflictPolicy fs m opts = conflictPolicy fs m' opts"
  unfolding conflictPolicy_def assms by (rule refl)

text \<open>
  \<open>detectConflicts\<close> does what the three policies say, for every disk, flat mapping
  and configuration.
\<close>

theorem detectConflicts_policy: "detectConflicts fs flatMap opts = conflictPolicy fs flatMap opts"
proof -
  have k: "map_keys (map (\<lambda>k. (k, [])) (map_keys flatMap)) = map_keys flatMap"
    by (simp add: map_keys_def comp_def)
  have "detectConflicts fs flatMap opts =
      (case conflictPolicy fs (map (\<lambda>k. (k, [])) (map_keys flatMap)) opts of
         Inl err \<Rightarrow> Inl err | Inr w \<Rightarrow> Inr ([] @ w))"
    unfolding detectConflicts_def by (rule detectConflictsLoop_policy)
  also have "\<dots> = conflictPolicy fs flatMap opts"
    unfolding conflictPolicy_keys [OF k]
    by (cases "conflictPolicy fs flatMap opts") simp_all
  finally show ?thesis .
qed

text \<open>With a single target the start never throws: the conflict detection does not run.\<close>

theorem single_target_starts:
  assumes "length (targets opts) = 1"
  shows "\<exists>st out. unlock fs opts = Inr (Active st, out)"
  using assms
  by (simp add: unlock_def Let_def split: prod.splits)

theorem single_target_starts_witness:
  "\<exists>st out. unlock fs_special (mkOptions [ui] OnError) = Inr (Active st, out)"
  by (rule single_target_starts) (simp add: mkOptions_def)

lemma map_set_keys_distinct: "distinct (map fst m) \<Longrightarrow> distinct (map fst (map_set m k v))"
proof (induction m)
  case Nil
  show ?case by simp
next
  case (Cons x m)
  obtain k' v' where x: "x = (k', v')" by (cases x)
  have "fst ` set (map_set m k v) \<subseteq> insert k (fst ` set m)"
    using set_map_set [of m k v] by force
  then show ?case
    using Cons by (auto simp: x)
qed

lemma scanTargetFiles_distinct:
  "distinct (map fst m) \<Longrightarrow> distinct (map fst (scanTargetFiles wd t opts m files))"
  by (induction files arbitrary: m) (simp_all add: Let_def map_set_keys_distinct)

lemma scanTarget_distinct: "distinct (map fst (scanTarget fs t opts))"
  by (simp add: scanTarget_def scanTargetFiles_distinct)

lemma map_get_Nil: "map_get [] k = None"
  by (simp add: map_get_def)

lemma map_get_Cons: "map_get ((k', v) # m) k = (if k = k' then Some v else map_get m k)"
  by (simp add: map_get_def)

lemma map_get_absent: "k \<notin> fst ` set m \<Longrightarrow> map_get m k = None"
  by (simp add: map_get_def map_of_eq_None_iff)

lemma combineTarget_get:
  "distinct (map fst m) \<Longrightarrow>
   map_get (combineTarget t combined m) key =
     (case map_get m key of
        None \<Rightarrow> map_get combined key
      | Some fp \<Rightarrow> Some \<lparr>target = t, filePath = fp\<rparr>)"
proof (induction m arbitrary: combined)
  case Nil
  show ?case by (simp add: map_get_Nil)
next
  case (Cons x m)
  obtain k fp where x: "x = (k, fp)" by (cases x)
  from Cons.prems have d: "distinct (map fst m)" and k: "k \<notin> fst ` set m" by (simp_all add: x)
  have nk: "map_get m k = None" using k by (rule map_get_absent)
  show ?case
  proof (cases "key = k")
    case True
    then show ?thesis
      using Cons.IH [OF d, of "map_set combined k \<lparr>target = t, filePath = fp\<rparr>"] nk
      by (simp add: x map_get_map_set map_get_Cons)
  next
    case False
    then show ?thesis
      using Cons.IH [OF d, of "map_set combined k \<lparr>target = t, filePath = fp\<rparr>"]
      by (simp add: x map_get_map_set map_get_Cons split: option.splits)
  qed
qed

lemma find_snoc:
  "find P (xs @ [y]) = (case find P xs of None \<Rightarrow> (if P y then Some y else None) | Some x \<Rightarrow> Some x)"
  by (induction xs) auto

lemma scanAllTargetsLoop_get:
  "map_get (fst (scanAllTargetsLoop fs opts acc ts)) key =
     (case find (\<lambda>t. map_has (scanTarget fs t opts) key) (rev ts) of
        None \<Rightarrow> map_get (fst acc) key
      | Some t \<Rightarrow> Some \<lparr>target = t, filePath = the (map_get (scanTarget fs t opts) key)\<rparr>)"
proof (induction ts arbitrary: acc)
  case Nil
  show ?case by simp
next
  case (Cons t ts)
  obtain combined out where acc: "acc = (combined, out)" by (cases acc)
  have has: "map_has (scanTarget fs t opts) key \<longleftrightarrow> map_get (scanTarget fs t opts) key \<noteq> None"
    by (simp add: map_has_def map_get_def)
  show ?case
  proof (cases "find (\<lambda>t. map_has (scanTarget fs t opts) key) (rev ts)")
    case (Some t')
    then show ?thesis by (simp add: acc Let_def Cons.IH find_snoc)
  next
    case None
    show ?thesis
    proof (cases "map_get (scanTarget fs t opts) key")
      case n: None
      then show ?thesis
        using combineTarget_get [OF scanTarget_distinct, of t combined fs t opts key] None has
        by (simp add: acc Let_def Cons.IH find_snoc)
    next
      case (Some fp)
      then show ?thesis
        using combineTarget_get [OF scanTarget_distinct, of t combined fs t opts key] None has
        by (simp add: acc Let_def Cons.IH find_snoc)
    qed
  qed
qed

text \<open>
  For every key, the target file index of \<open>scanAllTargets\<close> holds the file of the last
  configured target whose own scan has the key.
\<close>

theorem scanAllTargets_last_target:
  "map_get (fst (scanAllTargets fs opts)) key =
     (case find (\<lambda>t. map_has (scanTarget fs t opts) key) (rev (targets opts)) of
        None \<Rightarrow> None
      | Some t \<Rightarrow> Some \<lparr>target = t, filePath = the (map_get (scanTarget fs t opts) key)\<rparr>)"
  by (simp add: scanAllTargets_def scanAllTargetsLoop_get map_get_Nil split: option.splits)

end
